theory Spec2Isabelle
  imports Main
begin

section \<open>The IR substrate: values, operations, blocks\<close>

text \<open>
  The canonicalization patterns of the structured-control-flow dialect (SCF.cpp) work on a
  mutable graph of operations, blocks and values. The graph is modelled as a tree: an
  operation owns its regions, a region is a list of blocks, a block owns its operations.
  Pointer identity of operations and blocks is an identifier; an SSA value is named by its
  owner and its position. Types and locations are not modelled.
\<close>

datatype val = OpResult nat nat | BlockArgument nat nat

text \<open>An arbitrary-precision integer: a bit width and the bits read as an unsigned number.\<close>

datatype APInt = APInt (BitWidth: nat) (bits: nat)

datatype attr = IntegerAttr APInt | OtherAttr

datatype opname =
    arith_constant attr | arith_addi | arith_xori | arith_andi | arith_select
  | scf_for | scf_forall | scf_if | scf_while | scf_parallel nat nat nat
  | scf_index_switch "int list"
  | scf_yield | scf_condition | scf_reduce | scf_in_parallel
  | other_op string

datatype op = Op (op_id: nat) (op_name: opname) (getOperands: "val list") (getNumResults: nat)
    (getRegions: "block list list")
and block = Block (block_id: nat) (getNumArguments: nat) (block_ops: "op list")

text \<open>All operations below an operation or a block, the operation itself first.\<close>

fun ops_of_op :: "op \<Rightarrow> op list" and ops_of_block :: "block \<Rightarrow> op list" where
  "ops_of_op (Op i n os k rs) =
     Op i n os k rs # concat (map (\<lambda>r. concat (map ops_of_block r)) rs)"
| "ops_of_block (Block b a ops) = concat (map ops_of_op ops)"

definition ops_of_list :: "op list \<Rightarrow> op list" where
  "ops_of_list xs = concat (map ops_of_op xs)"

text \<open>All blocks below an operation or a block, the block itself first.\<close>

fun blocks_of_op :: "op \<Rightarrow> block list" and blocks_of_block :: "block \<Rightarrow> block list" where
  "blocks_of_op (Op i n os k rs) = concat (map (\<lambda>r. concat (map blocks_of_block r)) rs)"
| "blocks_of_block (Block b a ops) = Block b a ops # concat (map blocks_of_op ops)"

definition op_ids :: "op list \<Rightarrow> nat set" where
  "op_ids xs = set (map op_id (ops_of_list xs))"

definition lookupOp :: "block \<Rightarrow> nat \<Rightarrow> op option" where
  "lookupOp root i = find (\<lambda>x. op_id x = i) (ops_of_block root)"

definition lookupBlock :: "block \<Rightarrow> nat \<Rightarrow> block option" where
  "lookupBlock root b = find (\<lambda>x. block_id x = b) (blocks_of_block root)"

text \<open>Bottom-up rewriting of every operation and every block of a tree.\<close>

fun map_op :: "(op \<Rightarrow> op) \<Rightarrow> (block \<Rightarrow> block) \<Rightarrow> op \<Rightarrow> op"
and map_block :: "(op \<Rightarrow> op) \<Rightarrow> (block \<Rightarrow> block) \<Rightarrow> block \<Rightarrow> block" where
  "map_op f g (Op i n os k rs) = f (Op i n os k (map (map (map_block f g)) rs))"
| "map_block f g (Block b a ops) = g (Block b a (map (map_op f g) ops))"

definition setOperands :: "(val \<Rightarrow> val) \<Rightarrow> op \<Rightarrow> op" where
  "setOperands s x = Op (op_id x) (op_name x) (map s (getOperands x)) (getNumResults x) (getRegions x)"

definition substOp :: "(val \<Rightarrow> val) \<Rightarrow> op \<Rightarrow> op" where
  "substOp s = map_op (setOperands s) id"

definition substBlock :: "(val \<Rightarrow> val) \<Rightarrow> block \<Rightarrow> block" where
  "substBlock s = map_block (setOperands s) id"

text \<open>The operand slots that hold a value: its uses.\<close>

definition use_empty :: "block \<Rightarrow> val \<Rightarrow> bool" where
  "use_empty root v = (\<forall>x \<in> set (ops_of_block root). v \<notin> set (getOperands x))"

section \<open>APInt arithmetic\<close>

datatype 'a asserted = Ok 'a | AssertFail

definition bindA :: "'a asserted \<Rightarrow> ('a \<Rightarrow> 'b asserted) \<Rightarrow> 'b asserted" where
  "bindA m f = (case m of AssertFail \<Rightarrow> AssertFail | Ok x \<Rightarrow> f x)"

text \<open>
  Modelled from the spec: the APInt class is not part of the sources; the spec names the
  hazard (``numeric overflow in static trip-count computation ... wrap''), and the
  operations used by SCF.cpp are the two's complement ones: subtraction modulo
  \<open>2 ^ width\<close> of two integers of the same width, the signed reading, the signed reading as
  a 64-bit integer (an assertion when it does not fit), and the signed comparison with a
  64-bit integer.
\<close>

definition APInt_unsigned :: "APInt \<Rightarrow> nat" where
  "APInt_unsigned a = bits a mod 2 ^ BitWidth a"

definition APInt_signed :: "APInt \<Rightarrow> int" where
  "APInt_signed a =
     (let w = BitWidth a; u = int (APInt_unsigned a)
      in if 0 < w \<and> 2 ^ (w - 1) \<le> u then u - 2 ^ w else u)"

definition APInt_sub :: "APInt \<Rightarrow> APInt \<Rightarrow> APInt asserted" where
  "APInt_sub a b =
     (if BitWidth a \<noteq> BitWidth b then AssertFail
      else Ok (APInt (BitWidth a)
                 ((APInt_unsigned a + 2 ^ BitWidth a - APInt_unsigned b) mod 2 ^ BitWidth a)))"

definition getSExtValue :: "APInt \<Rightarrow> int asserted" where
  "getSExtValue a =
     (if - (2 ^ 63) \<le> APInt_signed a \<and> APInt_signed a < 2 ^ 63 then Ok (APInt_signed a)
      else AssertFail)"

definition APInt_sge :: "APInt \<Rightarrow> int \<Rightarrow> bool" where
  "APInt_sge a d = (d \<le> APInt_signed a)"

section \<open>Matchers\<close>

text \<open>
  Modelled from the spec: the matchers are part of the substrate (``compile-time
  constants''). A value is a constant when its defining operation is a constant
  operation; the integer matchers bind the APInt of an integer attribute, the boolean
  matcher binds an integer attribute of width 1.
\<close>

definition getDefiningOp :: "block \<Rightarrow> val \<Rightarrow> op option" where
  "getDefiningOp root v = (case v of OpResult i k \<Rightarrow> lookupOp root i | BlockArgument b k \<Rightarrow> None)"

definition m_ConstantInt :: "block \<Rightarrow> val \<Rightarrow> APInt option" where
  "m_ConstantInt root v =
     (case getDefiningOp root v of
        Some x \<Rightarrow> (case op_name x of arith_constant (IntegerAttr a) \<Rightarrow> Some a | _ \<Rightarrow> None)
      | None \<Rightarrow> None)"

definition m_ConstantBool :: "block \<Rightarrow> val \<Rightarrow> bool option" where
  "m_ConstantBool root v =
     (case m_ConstantInt root v of
        Some a \<Rightarrow> if BitWidth a = 1 then Some (APInt_unsigned a \<noteq> 0) else None
      | None \<Rightarrow> None)"

text \<open>\<open>m_Op<arith::AddIOp>(p, q)\<close>: the defining operation is an addition of two operands.\<close>

definition m_AddI :: "block \<Rightarrow> val \<Rightarrow> (val \<times> val) option" where
  "m_AddI root v =
     (case getDefiningOp root v of
        Some x \<Rightarrow> (case (op_name x, getOperands x) of
                     (arith_addi, [p, q]) \<Rightarrow> Some (p, q)
                   | _ \<Rightarrow> None)
      | None \<Rightarrow> None)"

section \<open>The rewriter\<close>

datatype insertion_point = InsertBefore nat | InsertAtEnd nat

record rewriter =
  ir :: block
  nextId :: nat
  ip :: insertion_point

datatype LogicalResult = failure | success rewriter | crash

definition succeed :: "rewriter asserted \<Rightarrow> LogicalResult" where
  "succeed m = (case m of Ok rw \<Rightarrow> success rw | AssertFail \<Rightarrow> crash)"

text \<open>
  Modelled from the spec: the mutation primitives of the substrate (``operation
  construction/replacement/erasure primitives, block/region mutation primitives (merge,
  inline, ...)''; ``all consumers must be redirected to the replacement's results before
  erasure''). Replacing uses walks every operand slot; a range of values is replaced one
  value after the other; the numbers of values must agree.
\<close>

definition replaceValue :: "val \<Rightarrow> val \<Rightarrow> val \<Rightarrow> val" where
  "replaceValue old new v = (if v = old then new else v)"

definition replaceAllUsesWith :: "val \<Rightarrow> val \<Rightarrow> rewriter \<Rightarrow> rewriter" where
  "replaceAllUsesWith old new rw = rw\<lparr>ir := substBlock (replaceValue old new) (ir rw)\<rparr>"

fun replaceAllUsesWith_range :: "val list \<Rightarrow> val list \<Rightarrow> rewriter \<Rightarrow> rewriter" where
  "replaceAllUsesWith_range (f # fs) (t # ts) rw =
     replaceAllUsesWith_range fs ts (replaceAllUsesWith f t rw)"
| "replaceAllUsesWith_range _ _ rw = rw"

definition removeOp :: "nat \<Rightarrow> block \<Rightarrow> block" where
  "removeOp i x = Block (block_id x) (getNumArguments x) (filter (\<lambda>y. op_id y \<noteq> i) (block_ops x))"

definition eraseOp :: "nat \<Rightarrow> rewriter \<Rightarrow> rewriter" where
  "eraseOp i rw = rw\<lparr>ir := map_block id (removeOp i) (ir rw)\<rparr>"

definition getResults :: "op \<Rightarrow> val list" where
  "getResults x = map (OpResult (op_id x)) [0..<getNumResults x]"

definition getArguments :: "block \<Rightarrow> val list" where
  "getArguments x = map (BlockArgument (block_id x)) [0..<getNumArguments x]"

definition replaceOp :: "nat \<Rightarrow> val list \<Rightarrow> rewriter \<Rightarrow> rewriter asserted" where
  "replaceOp i newValues rw =
     (case lookupOp (ir rw) i of
        None \<Rightarrow> AssertFail
      | Some x \<Rightarrow>
          if getNumResults x \<noteq> length newValues then AssertFail
          else Ok (eraseOp i (replaceAllUsesWith_range (getResults x) newValues rw)))"

definition removeBlock :: "nat \<Rightarrow> op \<Rightarrow> op" where
  "removeBlock b x =
     Op (op_id x) (op_name x) (getOperands x) (getNumResults x)
        (map (filter (\<lambda>y. block_id y \<noteq> b)) (getRegions x))"

definition eraseBlock :: "nat \<Rightarrow> rewriter \<Rightarrow> rewriter" where
  "eraseBlock b rw = rw\<lparr>ir := map_block (removeBlock b) id (ir rw)\<rparr>"

definition spliceBefore :: "nat \<Rightarrow> op list \<Rightarrow> block \<Rightarrow> block" where
  "spliceBefore i new x =
     Block (block_id x) (getNumArguments x)
       (concat (map (\<lambda>y. if op_id y = i then new @ [y] else [y]) (block_ops x)))"

definition spliceAtEnd :: "nat \<Rightarrow> op list \<Rightarrow> block \<Rightarrow> block" where
  "spliceAtEnd b new x =
     (if block_id x = b then Block (block_id x) (getNumArguments x) (block_ops x @ new) else x)"

definition insertOps :: "insertion_point \<Rightarrow> op list \<Rightarrow> rewriter \<Rightarrow> rewriter" where
  "insertOps p new rw =
     (case p of
        InsertBefore i \<Rightarrow> rw\<lparr>ir := map_block id (spliceBefore i new) (ir rw)\<rparr>
      | InsertAtEnd b \<Rightarrow> rw\<lparr>ir := map_block id (spliceAtEnd b new) (ir rw)\<rparr>)"

text \<open>
  \<open>inlineBlockBefore(source, op, argValues)\<close>: the arguments of the source block are
  replaced by the given values, the operations of the block are moved in front of the
  operation, the emptied block is erased.
\<close>

definition inlineBlock :: "nat \<Rightarrow> insertion_point \<Rightarrow> val list \<Rightarrow> rewriter \<Rightarrow> rewriter asserted" where
  "inlineBlock b p argValues rw =
     (case lookupBlock (ir rw) b of
        None \<Rightarrow> AssertFail
      | Some source \<Rightarrow>
          if length argValues \<noteq> getNumArguments source then AssertFail
          else
            let rw1 = replaceAllUsesWith_range (getArguments source) argValues rw
            in (case lookupBlock (ir rw1) b of
                  None \<Rightarrow> AssertFail
                | Some source1 \<Rightarrow> Ok (insertOps p (block_ops source1) (eraseBlock b rw1))))"

definition inlineBlockBefore :: "nat \<Rightarrow> nat \<Rightarrow> val list \<Rightarrow> rewriter \<Rightarrow> rewriter asserted" where
  "inlineBlockBefore b i argValues rw = inlineBlock b (InsertBefore i) argValues rw"

definition mergeBlocks :: "nat \<Rightarrow> nat \<Rightarrow> val list \<Rightarrow> rewriter \<Rightarrow> rewriter asserted" where
  "mergeBlocks source dest argValues rw = inlineBlock source (InsertAtEnd dest) argValues rw"

text \<open>
  \<open>Block::getTerminator()\<close>: the last operation of a block that is not empty, which must
  be a terminator. The operations \<open>other_op\<close> stand for registered operations that are not
  terminators.
\<close>

definition isTerminator :: "opname \<Rightarrow> bool" where
  "isTerminator n =
     (case n of scf_yield \<Rightarrow> True | scf_condition \<Rightarrow> True | scf_reduce \<Rightarrow> True
      | scf_in_parallel \<Rightarrow> True | _ \<Rightarrow> False)"

definition getTerminator :: "block \<Rightarrow> op asserted" where
  "getTerminator x =
     (if block_ops x = [] then AssertFail
      else if isTerminator (op_name (last (block_ops x))) then Ok (last (block_ops x))
      else AssertFail)"

section \<open>scf.for: trivial loops\<close>

text \<open>
  \<open>replaceOpWithRegion\<close> (SCF.cpp): replaces the operation with the contents of its
  single-block region, the operands of the block terminator replace the results. The
  range \<open>results\<close> is a view of the terminator's operands, read when \<open>replaceOp\<close> runs.
\<close>

definition replaceOpWithRegion :: "nat \<Rightarrow> nat \<Rightarrow> val list \<Rightarrow> rewriter \<Rightarrow> rewriter asserted" where
  "replaceOpWithRegion i r blockArgs rw =
     (case lookupOp (ir rw) i of
        None \<Rightarrow> AssertFail
      | Some x \<Rightarrow>
          if \<not> r < length (getRegions x) then AssertFail
          else (case getRegions x ! r of
                  [blk] \<Rightarrow>
                    bindA (getTerminator blk) (\<lambda>terminator.
                    bindA (inlineBlockBefore (block_id blk) i blockArgs rw) (\<lambda>rw1.
                    (case lookupOp (ir rw1) (op_id terminator) of
                       None \<Rightarrow> AssertFail
                     | Some terminator1 \<Rightarrow>
                         bindA (replaceOp i (getOperands terminator1) rw1) (\<lambda>rw2.
                         Ok (eraseOp (op_id terminator) rw2)))))
                | _ \<Rightarrow> AssertFail))"

text \<open>\<open>computeConstDiff\<close> (SCF.cpp): a constant difference between \<open>u\<close> and \<open>l\<close>.\<close>

definition computeConstDiff :: "block \<Rightarrow> val \<Rightarrow> val \<Rightarrow> int option asserted" where
  "computeConstDiff root l u =
     (case (m_ConstantInt root l, m_ConstantInt root u) of
        (Some lbValue, Some ubValue) \<Rightarrow>
          bindA (APInt_sub ubValue lbValue) (\<lambda>d. bindA (getSExtValue d) (\<lambda>s. Ok (Some s)))
      | _ \<Rightarrow>
          (case m_AddI root u of
             Some (p, q) \<Rightarrow>
               (case (p = l, m_ConstantInt root q) of
                  (True, Some diff) \<Rightarrow> bindA (getSExtValue diff) (\<lambda>s. Ok (Some s))
                | _ \<Rightarrow>
                    (case (m_ConstantInt root p, q = l) of
                       (Some diff, True) \<Rightarrow> bindA (getSExtValue diff) (\<lambda>s. Ok (Some s))
                     | _ \<Rightarrow> Ok None))
           | None \<Rightarrow> Ok None))"

text \<open>\<open>isDefinedOutsideOfLoop\<close>: the value is not defined by anything below the loop.\<close>

definition isDefinedOutsideOfLoop :: "op \<Rightarrow> val \<Rightarrow> bool" where
  "isDefinedOutsideOfLoop x v =
     (case v of
        OpResult i k \<Rightarrow> i \<notin> set (map op_id (tl (ops_of_op x)))
      | BlockArgument b k \<Rightarrow> b \<notin> set (map block_id (blocks_of_op x)))"

text \<open>\<open>SimplifyTrivialLoops::matchAndRewrite\<close> (SCF.cpp).\<close>

definition SimplifyTrivialLoops :: "rewriter \<Rightarrow> nat \<Rightarrow> LogicalResult" where
  "SimplifyTrivialLoops rw i =
     (case lookupOp (ir rw) i of
        Some (Op _ scf_for (lb # ub # step # inits) n rs) \<Rightarrow>
          if lb = ub then succeed (replaceOp i inits rw)
          else
            (case computeConstDiff (ir rw) lb ub of
               AssertFail \<Rightarrow> crash
             | Ok None \<Rightarrow> failure
             | Ok (Some diff) \<Rightarrow>
                 if diff \<le> 0 then succeed (replaceOp i inits rw)
                 else
                   (case m_ConstantInt (ir rw) step of
                      None \<Rightarrow> failure
                    | Some stepValue \<Rightarrow>
                        if APInt_sge stepValue diff
                        then succeed (replaceOpWithRegion i 0 (lb # inits) rw)
                        else
                          (case rs of
                             (body # _) # _ \<Rightarrow>
                               if length (block_ops body) \<noteq> 1 then failure
                               else
                                 (case getTerminator body of
                                    AssertFail \<Rightarrow> crash
                                  | Ok yield \<Rightarrow>
                                      if op_name yield \<noteq> scf_yield then crash
                                      else if \<exists>v \<in> set (getOperands yield).
                                                \<not> isDefinedOutsideOfLoop (Op i scf_for (lb # ub # step # inits) n rs) v
                                      then failure
                                      else succeed (replaceOp i (getOperands yield) rw))
                           | _ \<Rightarrow> crash)))
      | _ \<Rightarrow> crash)"


section \<open>Reading the rewrites\<close>

text \<open>
  The simultaneous replacement of a range of values by another, used to state what a
  rewrite did; the values replaced one after the other, as the primitives do it; the
  identifiers of all blocks below a list of operations.
\<close>

definition substitute :: "val list \<Rightarrow> val list \<Rightarrow> val \<Rightarrow> val" where
  "substitute olds news v = (case map_of (zip olds news) v of Some t \<Rightarrow> t | None \<Rightarrow> v)"

fun replaceValues :: "val list \<Rightarrow> val list \<Rightarrow> val \<Rightarrow> val" where
  "replaceValues (f # fs) (t # ts) v = replaceValues fs ts (replaceValue f t v)"
| "replaceValues _ _ v = v"

definition block_ids :: "op list \<Rightarrow> nat set" where
  "block_ids xs = set (map block_id (concat (map blocks_of_op xs)))"

definition ops_of_regions :: "block list list \<Rightarrow> op list" where
  "ops_of_regions rs = concat (map (\<lambda>r. concat (map ops_of_block r)) rs)"

definition blocks_of_list :: "op list \<Rightarrow> block list" where
  "blocks_of_list xs = concat (map blocks_of_op xs)"

definition blocks_of_regions :: "block list list \<Rightarrow> block list" where
  "blocks_of_regions rs = concat (map (\<lambda>r. concat (map blocks_of_block r)) rs)"

section \<open>Example programs\<close>

definition c64 :: "nat \<Rightarrow> nat \<Rightarrow> op" where
  "c64 i v = Op i (arith_constant (IntegerAttr (APInt 64 v))) [] 1 []"

text \<open>\<open>for i = 3 to 3 step 1 iter(x = 5) { yield x }\<close>, its result used once.\<close>

definition trivial_for_example :: rewriter where
  "trivial_for_example =
     \<lparr>ir = Block 0 0
        [c64 0 3, c64 1 3, c64 2 1, c64 3 5,
         Op 4 scf_for [OpResult 0 0, OpResult 1 0, OpResult 2 0, OpResult 3 0] 1
           [[Block 1 2 [Op 5 scf_yield [BlockArgument 1 1] 0 []]]],
         Op 6 (other_op ''use'') [OpResult 4 0] 0 []],
      nextId = 7, ip = InsertBefore 4\<rparr>"

text \<open>
  \<open>for i = -1 to 9223372036854775807 step 1 iter(x = 5) { y = work(i, x); yield y }\<close> on
  64-bit integers: a loop of \<open>2 ^ 63\<close> iterations.
\<close>

definition wrapped_for_example :: rewriter where
  "wrapped_for_example =
     \<lparr>ir = Block 0 0
        [c64 0 18446744073709551615, c64 1 9223372036854775807, c64 2 1, c64 3 5,
         Op 4 scf_for [OpResult 0 0, OpResult 1 0, OpResult 2 0, OpResult 3 0] 1
           [[Block 1 2 [Op 7 (other_op ''work'') [BlockArgument 1 0, BlockArgument 1 1] 1 [],
                        Op 5 scf_yield [OpResult 7 0] 0 []]]],
         Op 6 (other_op ''use'') [OpResult 4 0] 0 []],
      nextId = 8, ip = InsertBefore 4\<rparr>"

text \<open>
  \<open>for i = 0 to 10 step 1 iter(x = 5) { yield 9 }\<close> with the constant 9 defined in front
  of the loop.
\<close>

definition empty_for_example :: rewriter where
  "empty_for_example =
     \<lparr>ir = Block 0 0
        [c64 0 0, c64 1 10, c64 2 1, c64 3 5, c64 7 9,
         Op 4 scf_for [OpResult 0 0, OpResult 1 0, OpResult 2 0, OpResult 3 0] 1
           [[Block 1 2 [Op 5 scf_yield [OpResult 7 0] 0 []]]],
         Op 6 (other_op ''use'') [OpResult 4 0] 0 []],
      nextId = 8, ip = InsertBefore 4\<rparr>"

text \<open>\<open>for i = 0 to 1 step 1 iter(x = 7) { y = i + x; yield y }\<close>, its result used once.\<close>

definition single_for_example :: rewriter where
  "single_for_example =
     \<lparr>ir = Block 0 0
        [c64 0 0, c64 1 1, c64 2 7,
         Op 3 scf_for [OpResult 0 0, OpResult 1 0, OpResult 1 0, OpResult 2 0] 1
           [[Block 1 2 [Op 4 arith_addi [BlockArgument 1 0, BlockArgument 1 1] 1 [],
                        Op 5 scf_yield [OpResult 4 0] 0 []]]],
         Op 6 (other_op ''use'') [OpResult 3 0] 0 []],
      nextId = 7, ip = InsertBefore 3\<rparr>"

section \<open>scf.index_switch: folding a constant case\<close>

text \<open>\<open>getConstantIntValue\<close>: the signed value of a constant integer.\<close>

definition getConstantIntValue :: "block \<Rightarrow> val \<Rightarrow> int option asserted" where
  "getConstantIntValue root v =
     (case m_ConstantInt root v of
        None \<Rightarrow> Ok None
      | Some a \<Rightarrow> bindA (getSExtValue a) (\<lambda>s. Ok (Some s)))"

text \<open>The loop of \<open>FoldConstantCase\<close>: the first index whose case value is the constant.\<close>

fun findCase :: "int \<Rightarrow> int list \<Rightarrow> nat" where
  "findCase cst [] = 0"
| "findCase cst (c # cs) = (if cst = c then 0 else Suc (findCase cst cs))"

text \<open>
  \<open>FoldConstantCase::matchAndRewrite\<close> (SCF.cpp). Region 0 is the default region, the case
  regions follow; \<open>results\<close> is a copy of the terminator's operands.
\<close>

definition FoldConstantCase :: "rewriter \<Rightarrow> nat \<Rightarrow> LogicalResult" where
  "FoldConstantCase rw i =
     (case lookupOp (ir rw) i of
        Some (Op _ (scf_index_switch cases) [arg] n rs) \<Rightarrow>
          (case getConstantIntValue (ir rw) arg of
             AssertFail \<Rightarrow> crash
           | Ok None \<Rightarrow> failure
           | Ok (Some cst) \<Rightarrow>
               let caseIdx = findCase cst cases;
                   r = (if caseIdx < length cases then Suc caseIdx else 0)
               in if \<not> r < length rs then crash
                  else (case rs ! r of
                          [] \<Rightarrow> crash
                        | source # _ \<Rightarrow>
                            succeed
                              (bindA (getTerminator source) (\<lambda>terminator.
                               bindA (inlineBlockBefore (block_id source) i [] rw) (\<lambda>rw1.
                               bindA (Ok (eraseOp (op_id terminator) rw1)) (\<lambda>rw2.
                               replaceOp i (getOperands terminator) rw2))))))
      | _ \<Rightarrow> crash)"

text \<open>\<open>index_switch 2 { case 1: yield 10; case 2: yield 20; default: yield 0 }\<close>, its result used once.\<close>

definition switch_example :: rewriter where
  "switch_example =
     \<lparr>ir = Block 0 0
        [c64 0 2,
         Op 1 (scf_index_switch [1, 2]) [OpResult 0 0] 1
           [[Block 1 0 [c64 2 0, Op 3 scf_yield [OpResult 2 0] 0 []]],
            [Block 2 0 [c64 4 10, Op 5 scf_yield [OpResult 4 0] 0 []]],
            [Block 3 0 [c64 6 20, Op 7 scf_yield [OpResult 6 0] 0 []]]],
         Op 8 (other_op ''use'') [OpResult 1 0] 0 []],
      nextId = 9, ip = InsertBefore 1\<rparr>"

section \<open>Successor regions\<close>

datatype RegionBranchPoint = parent | fromRegion nat

datatype RegionSuccessor = toRegion nat "val list" | toParent "val list"

text \<open>\<open>Region::getArguments()\<close>: the arguments of the first block, none for an empty region.\<close>

definition Region_getArguments :: "block list \<Rightarrow> val list" where
  "Region_getArguments r = (case r of [] \<Rightarrow> [] | y # _ \<Rightarrow> getArguments y)"

text \<open>\<open>ForOp::getRegionIterArgs\<close>: the arguments of the body after the induction variable.\<close>

definition ForOp_getRegionIterArgs :: "op \<Rightarrow> val list asserted" where
  "ForOp_getRegionIterArgs x =
     (case getRegions x of (body # _) # _ \<Rightarrow> Ok (drop 1 (getArguments body)) | _ \<Rightarrow> AssertFail)"

text \<open>\<open>ForOp::getSuccessorRegions\<close> (SCF.cpp).\<close>

definition ForOp_getSuccessorRegions :: "op \<Rightarrow> RegionBranchPoint \<Rightarrow> RegionSuccessor list asserted" where
  "ForOp_getSuccessorRegions x point =
     bindA (ForOp_getRegionIterArgs x) (\<lambda>iterArgs. Ok [toRegion 0 iterArgs, toParent (getResults x)])"

text \<open>\<open>ForallOp::getSuccessorRegions\<close> (SCF.cpp).\<close>

definition ForallOp_getSuccessorRegions :: "op \<Rightarrow> RegionBranchPoint \<Rightarrow> RegionSuccessor list asserted" where
  "ForallOp_getSuccessorRegions x point =
     (if point = parent then Ok [toRegion 0 []] else Ok [toParent []])"

text \<open>\<open>WhileOp::getSuccessorRegions\<close> (SCF.cpp): region 0 is \<open>before\<close>, region 1 is \<open>after\<close>.\<close>

definition WhileOp_getSuccessorRegions :: "op \<Rightarrow> RegionBranchPoint \<Rightarrow> RegionSuccessor list asserted" where
  "WhileOp_getSuccessorRegions x point =
     (case getRegions x of
        [before, after] \<Rightarrow>
          if point = parent then Ok [toRegion 0 (Region_getArguments before)]
          else if point \<noteq> fromRegion 1 \<and> point \<noteq> fromRegion 0 then AssertFail
          else if point = fromRegion 1 then Ok [toRegion 0 (Region_getArguments before)]
          else Ok [toParent (getResults x), toRegion 1 (Region_getArguments after)]
      | _ \<Rightarrow> AssertFail)"

text \<open>What the claim says of a loop: the edges parent to body, body to body, body to results.\<close>

definition reaches :: "RegionSuccessor list asserted \<Rightarrow> RegionSuccessor \<Rightarrow> bool" where
  "reaches m s = (case m of Ok l \<Rightarrow> s \<in> set l | AssertFail \<Rightarrow> False)"

definition reaches_region :: "RegionSuccessor list asserted \<Rightarrow> nat \<Rightarrow> bool" where
  "reaches_region m r = (case m of Ok l \<Rightarrow> r \<in> set (concat (map (\<lambda>s. case s of toRegion q _ \<Rightarrow> [q] | toParent _ \<Rightarrow> []) l)) | AssertFail \<Rightarrow> False)"

definition reaches_results :: "RegionSuccessor list asserted \<Rightarrow> val list \<Rightarrow> bool" where
  "reaches_results m vs = reaches m (toParent vs)"

definition loop_edges :: "(op \<Rightarrow> RegionBranchPoint \<Rightarrow> RegionSuccessor list asserted) \<Rightarrow> op \<Rightarrow> nat \<Rightarrow> bool" where
  "loop_edges f x body =
     (reaches_region (f x parent) body \<and> reaches_region (f x (fromRegion body)) body \<and>
      reaches_results (f x (fromRegion body)) (getResults x))"

definition forall_example :: op where
  "forall_example =
     Op 0 scf_forall [] 1 [[Block 0 2 [Op 1 scf_in_parallel [] 0 []]]]"

definition while_example :: op where
  "while_example =
     Op 0 scf_while [OpResult 9 0] 1
       [[Block 0 1 [Op 1 (other_op ''cond'') [BlockArgument 0 0] 1 [],
                    Op 2 scf_condition [OpResult 1 0, BlockArgument 0 0] 0 []]],
        [Block 1 1 [Op 3 (other_op ''next'') [BlockArgument 1 0] 1 [],
                    Op 4 scf_yield [OpResult 3 0] 0 []]]]"

section \<open>scf.parallel: merging nested loops\<close>

text \<open>
  The operands of scf.parallel are the lower bounds, the upper bounds, the steps and the
  initial values, in segments whose sizes the operation records.
\<close>

definition getLowerBound :: "op \<Rightarrow> val list" where
  "getLowerBound x = (case op_name x of scf_parallel nl nu ns \<Rightarrow> take nl (getOperands x) | _ \<Rightarrow> [])"

definition getUpperBound :: "op \<Rightarrow> val list" where
  "getUpperBound x =
     (case op_name x of scf_parallel nl nu ns \<Rightarrow> take nu (drop nl (getOperands x)) | _ \<Rightarrow> [])"

definition getStep :: "op \<Rightarrow> val list" where
  "getStep x =
     (case op_name x of scf_parallel nl nu ns \<Rightarrow> take ns (drop (nl + nu) (getOperands x)) | _ \<Rightarrow> [])"

definition getInitVals :: "op \<Rightarrow> val list" where
  "getInitVals x =
     (case op_name x of scf_parallel nl nu ns \<Rightarrow> drop (nl + nu + ns) (getOperands x) | _ \<Rightarrow> [])"

text \<open>
  Modelled from the spec: cloning (``clone a region with a value mapping''). The clone of
  a list of operations is a copy with fresh identities: every operation and block below
  is renamed by adding \<open>base\<close>; a value defined below the list is renamed with its owner,
  any other value goes through the mapping.
\<close>

definition cloneValue :: "nat \<Rightarrow> op list \<Rightarrow> (val \<Rightarrow> val) \<Rightarrow> val \<Rightarrow> val" where
  "cloneValue base cs mapping v =
     (case v of
        OpResult j k \<Rightarrow> if j \<in> op_ids cs then OpResult (base + j) k else mapping v
      | BlockArgument q k \<Rightarrow> if q \<in> block_ids cs then BlockArgument (base + q) k else mapping v)"

definition cloneOps :: "nat \<Rightarrow> (val \<Rightarrow> val) \<Rightarrow> op list \<Rightarrow> op list" where
  "cloneOps base mapping cs =
     map (map_op
            (\<lambda>x. Op (base + op_id x) (op_name x) (map (cloneValue base cs mapping) (getOperands x))
                    (getNumResults x) (getRegions x))
            (\<lambda>y. Block (base + block_id y) (getNumArguments y) (block_ops y))) cs"

definition cloneSpan :: "op list \<Rightarrow> nat" where
  "cloneSpan cs = Suc (fold max (map op_id (ops_of_list cs) @ map block_id (blocks_of_list cs)) 0)"

text \<open>
  \<open>MergeNestedParallelLoops::matchAndRewrite\<close> (SCF.cpp). The new loop is built by
  \<open>ParallelOp::build\<close>: a body block with one argument per step, the clones of the inner
  body made by the body builder, and the terminator that \<open>ensureTerminator\<close> adds.
\<close>

definition MergeNestedParallelLoops :: "rewriter \<Rightarrow> nat \<Rightarrow> LogicalResult" where
  "MergeNestedParallelLoops rw i =
     (case lookupOp (ir rw) i of
        Some x \<Rightarrow>
          (case (op_name x, getRegions x) of
             (scf_parallel nl nu ns, (outerBody # _) # _) \<Rightarrow>
               if length (butlast (block_ops outerBody)) \<noteq> 1 then failure
               else
                 let innerOp = hd (block_ops outerBody)
                 in (case op_name innerOp of
                       scf_parallel nl' nu' ns' \<Rightarrow>
                         if \<exists>v \<in> set (getArguments outerBody).
                              v \<in> set (getLowerBound innerOp) \<or> v \<in> set (getUpperBound innerOp) \<or>
                              v \<in> set (getStep innerOp)
                         then failure
                         else if getInitVals x \<noteq> [] \<or> getInitVals innerOp \<noteq> [] then failure
                         else
                           (case getRegions innerOp of
                              (innerBody # _) # _ \<Rightarrow>
                                let newLowerBounds = getLowerBound x @ getLowerBound innerOp;
                                    newUpperBounds = getUpperBound x @ getUpperBound innerOp;
                                    newSteps = getStep x @ getStep innerOp;
                                    newOp = nextId rw;
                                    bodyBlock = Suc (nextId rw);
                                    base = Suc (Suc (nextId rw));
                                    iterVals = map (BlockArgument bodyBlock) [0..<length newSteps];
                                    cs = butlast (block_ops innerBody)
                                in if length iterVals \<noteq> getNumArguments outerBody + getNumArguments innerBody
                                   then crash
                                   else
                                     let mapping = substitute (getArguments outerBody @ getArguments innerBody) iterVals;
                                         cloned = cloneOps base mapping cs;
                                         terminated =
                                           (if cloned = [] \<or> \<not> isTerminator (op_name (last cloned))
                                            then cloned @ [Op (base + cloneSpan cs) scf_reduce [] 0 []]
                                            else cloned);
                                         built = Op newOp
                                                   (scf_parallel (length newLowerBounds) (length newUpperBounds)
                                                      (length newSteps))
                                                   (newLowerBounds @ newUpperBounds @ newSteps) 0
                                                   [[Block bodyBlock (length newSteps) terminated]];
                                         rw1 = insertOps (ip rw) [built]
                                                 (rw\<lparr>nextId := Suc (base + cloneSpan cs)\<rparr>)
                                     in succeed (replaceOp i [] rw1)
                            | _ \<Rightarrow> crash)
                     | _ \<Rightarrow> failure)
           | _ \<Rightarrow> crash)
      | None \<Rightarrow> crash)"

text \<open>The bounds and steps of a parallel loop.\<close>

definition getBounds :: "op \<Rightarrow> val set" where
  "getBounds x = set (getLowerBound x) \<union> set (getUpperBound x) \<union> set (getStep x)"

text \<open>
  Two nested parallel loops whose bounds are constants, and two whose inner lower bound is
  the induction variable of the outer loop.
\<close>

definition nested_parallel_example :: rewriter where
  "nested_parallel_example =
     \<lparr>ir = Block 0 0
        [c64 0 0, c64 1 8, c64 2 1,
         Op 3 (scf_parallel 1 1 1) [OpResult 0 0, OpResult 1 0, OpResult 2 0] 0
           [[Block 1 1
              [Op 4 (scf_parallel 1 1 1) [OpResult 0 0, OpResult 1 0, OpResult 2 0] 0
                 [[Block 2 1
                    [Op 5 (other_op ''work'') [BlockArgument 1 0, BlockArgument 2 0] 1 [],
                     Op 6 (other_op ''store'') [OpResult 5 0] 0 [],
                     Op 7 scf_reduce [] 0 []]]],
               Op 8 scf_reduce [] 0 []]]]],
      nextId = 9, ip = InsertBefore 3\<rparr>"

definition dependent_parallel_example :: rewriter where
  "dependent_parallel_example =
     \<lparr>ir = Block 0 0
        [c64 0 0, c64 1 8, c64 2 1,
         Op 3 (scf_parallel 1 1 1) [OpResult 0 0, OpResult 1 0, OpResult 2 0] 0
           [[Block 1 1
              [Op 4 (scf_parallel 1 1 1) [BlockArgument 1 0, OpResult 1 0, OpResult 2 0] 0
                 [[Block 2 1
                    [Op 5 (other_op ''work'') [BlockArgument 1 0, BlockArgument 2 0] 1 [],
                     Op 7 scf_reduce [] 0 []]]],
               Op 8 scf_reduce [] 0 []]]]],
      nextId = 9, ip = InsertBefore 3\<rparr>"

section \<open>scf.if: yields replaced by the condition or a value\<close>

text \<open>
  Modelled from the spec: creating an operation inserts it at the insertion point and
  leaves the insertion point behind it; creating a block appends it to a region of an
  operation and moves the insertion point to its end.
\<close>

definition createOp :: "opname \<Rightarrow> val list \<Rightarrow> nat \<Rightarrow> block list list \<Rightarrow> rewriter \<Rightarrow> nat \<times> rewriter" where
  "createOp nm os k rs rw =
     (nextId rw, insertOps (ip rw) [Op (nextId rw) nm os k rs] (rw\<lparr>nextId := Suc (nextId rw)\<rparr>))"

definition appendBlock :: "nat \<Rightarrow> nat \<Rightarrow> block \<Rightarrow> op \<Rightarrow> op" where
  "appendBlock i r y x =
     (if op_id x = i
      then Op (op_id x) (op_name x) (getOperands x) (getNumResults x)
             ((getRegions x)[r := getRegions x ! r @ [y]])
      else x)"

definition createBlock :: "nat \<Rightarrow> nat \<Rightarrow> nat \<Rightarrow> rewriter \<Rightarrow> nat \<times> rewriter" where
  "createBlock i r numArgs rw =
     (nextId rw,
      rw\<lparr>ir := map_block (appendBlock i r (Block (nextId rw) numArgs [])) id (ir rw),
         nextId := Suc (nextId rw), ip := InsertAtEnd (nextId rw)\<rparr>)"

text \<open>The terminator of the last block of a region, cast to scf.yield.\<close>

definition getYield :: "block list \<Rightarrow> op asserted" where
  "getYield r =
     (if r = [] then AssertFail
      else bindA (getTerminator (last r)) (\<lambda>t. if op_name t = scf_yield then Ok t else AssertFail))"

text \<open>
  One round of the loop of \<open>ReplaceIfYieldWithConditionOrValue::matchAndRewrite\<close>, for
  result position \<open>k\<close>. The ranges zipped by the loop are views: the yielded values and
  the condition are read when the round runs.
\<close>

definition replaceIfYieldRound ::
  "nat \<Rightarrow> nat \<Rightarrow> nat \<Rightarrow> nat \<Rightarrow> (rewriter \<times> bool) asserted \<Rightarrow> (rewriter \<times> bool) asserted" where
  "replaceIfYieldRound i ty fy k st =
     bindA st (\<lambda>(rw, changed).
       (case (lookupOp (ir rw) i, lookupOp (ir rw) ty, lookupOp (ir rw) fy) of
          (Some x, Some trueYield, Some falseYield) \<Rightarrow>
            (case getOperands x of
               [cond] \<Rightarrow>
                 let trueResult = getOperands trueYield ! k;
                     falseResult = getOperands falseYield ! k;
                     opResult = OpResult i k
                 in if trueResult = falseResult
                    then (if \<not> use_empty (ir rw) opResult
                          then Ok (replaceAllUsesWith opResult trueResult rw, True)
                          else Ok (rw, changed))
                    else
                      (case (m_ConstantBool (ir rw) trueResult, m_ConstantBool (ir rw) falseResult) of
                         (Some trueVal, Some falseVal) \<Rightarrow>
                           let (rw1, changed1) =
                                 (if \<not> trueVal \<and> falseVal \<and> \<not> use_empty (ir rw) opResult
                                  then let (one, rwa) = createOp (arith_constant (IntegerAttr (APInt 1 1))) [] 1 [] rw;
                                           (notCond, rwb) = createOp arith_xori [cond, OpResult one 0] 1 [] rwa
                                       in (replaceAllUsesWith opResult (OpResult notCond 0) rwb, True)
                                  else (rw, changed))
                           in if trueVal \<and> \<not> falseVal \<and> \<not> use_empty (ir rw1) opResult
                              then Ok (replaceAllUsesWith opResult cond rw1, True)
                              else Ok (rw1, changed1)
                       | _ \<Rightarrow> Ok (rw, changed))
             | _ \<Rightarrow> AssertFail)
        | _ \<Rightarrow> AssertFail))"

text \<open>\<open>ReplaceIfYieldWithConditionOrValue::matchAndRewrite\<close> (SCF.cpp).\<close>

definition ReplaceIfYieldWithConditionOrValue :: "rewriter \<Rightarrow> nat \<Rightarrow> LogicalResult" where
  "ReplaceIfYieldWithConditionOrValue rw i =
     (case lookupOp (ir rw) i of
        Some (Op _ scf_if _ n [thenRegion, elseRegion]) \<Rightarrow>
          if n = 0 then failure
          else
            (case (getYield thenRegion, getYield elseRegion) of
               (Ok trueYield, Ok falseYield) \<Rightarrow>
                 (case fold (replaceIfYieldRound i (op_id trueYield) (op_id falseYield))
                         [0..<min (length (getOperands trueYield)) (min (length (getOperands falseYield)) n)]
                         (Ok (rw\<lparr>ip := InsertBefore i\<rparr>, False)) of
                    AssertFail \<Rightarrow> crash
                  | Ok (rw', changed) \<Rightarrow> if changed then success rw' else failure)
             | _ \<Rightarrow> crash)
      | _ \<Rightarrow> crash)"

text \<open>
  \<open>RemoveUnusedResults\<close> (SCF.cpp). \<open>transferBody\<close> moves the operations of a block to the
  block of the new operation and keeps the used operands of the yield; the results
  without uses are replaced by no value.
\<close>

definition setYieldOperands :: "nat \<Rightarrow> nat list \<Rightarrow> op \<Rightarrow> op" where
  "setYieldOperands t used x =
     (if op_id x = t
      then Op (op_id x) (op_name x) (map (\<lambda>k. getOperands x ! k) used) (getNumResults x) (getRegions x)
      else x)"

definition transferBody :: "nat \<Rightarrow> nat \<Rightarrow> nat list \<Rightarrow> rewriter \<Rightarrow> rewriter asserted" where
  "transferBody source dest usedResults rw =
     bindA (mergeBlocks source dest [] rw) (\<lambda>rw1.
       (case lookupBlock (ir rw1) dest of
          None \<Rightarrow> AssertFail
        | Some d \<Rightarrow>
            bindA (getYield [d]) (\<lambda>yieldOp.
              if \<exists>k \<in> set usedResults. \<not> k < length (getOperands yieldOp) then AssertFail
              else Ok (rw1\<lparr>ir := map_block (setYieldOperands (op_id yieldOp) usedResults) id (ir rw1)\<rparr>))))"

fun replaceUsedResults :: "nat \<Rightarrow> nat \<Rightarrow> nat list \<Rightarrow> nat \<Rightarrow> rewriter \<Rightarrow> rewriter" where
  "replaceUsedResults i new [] j rw = rw"
| "replaceUsedResults i new (k # ks) j rw =
     replaceUsedResults i new ks (Suc j) (replaceAllUsesWith (OpResult i k) (OpResult new j) rw)"

definition RemoveUnusedResults :: "rewriter \<Rightarrow> nat \<Rightarrow> LogicalResult" where
  "RemoveUnusedResults rw i =
     (case lookupOp (ir rw) i of
        Some (Op _ scf_if [cond] n [thenRegion, elseRegion]) \<Rightarrow>
          let usedResults = filter (\<lambda>k. \<not> use_empty (ir rw) (OpResult i k)) [0..<n]
          in if length usedResults = n then failure
             else
               (case (thenRegion, elseRegion) of
                  (body0 # _, body1 # _) \<Rightarrow>
                    let (newOp, rw1) = createOp scf_if [cond] (length usedResults) [[], []] rw;
                        (dest0, rw2) = createBlock newOp 0 0 rw1;
                        (dest1, rw3) = createBlock newOp 1 0 rw2
                    in succeed
                         (bindA (transferBody (block_id body0) dest0 usedResults rw3) (\<lambda>rw4.
                          bindA (transferBody (block_id body1) dest1 usedResults rw4) (\<lambda>rw5.
                          Ok (eraseOp i (replaceUsedResults i newOp usedResults 0 rw5)))))
                | _ \<Rightarrow> crash)
      | _ \<Rightarrow> crash)"

definition c1 :: "nat \<Rightarrow> nat \<Rightarrow> op" where
  "c1 i v = Op i (arith_constant (IntegerAttr (APInt 1 v))) [] 1 []"

text \<open>\<open>%r:2 = if %c { yield 9, %v } else { yield 9, %v }\<close>, both results used.\<close>

definition same_yield_example :: rewriter where
  "same_yield_example =
     \<lparr>ir = Block 0 2
        [c64 0 9,
         Op 1 scf_if [BlockArgument 0 0] 2
           [[Block 1 0 [Op 2 scf_yield [OpResult 0 0, BlockArgument 0 1] 0 []]],
            [Block 2 0 [Op 3 scf_yield [OpResult 0 0, BlockArgument 0 1] 0 []]]],
         Op 4 (other_op ''use'') [OpResult 1 0, OpResult 1 1] 0 []],
      nextId = 5, ip = InsertBefore 1\<rparr>"

text \<open>
  \<open>%r:3 = if %c { yield true, false, a() } else { yield false, true, b() }\<close>, all results
  used.
\<close>

definition bool_yield_example :: rewriter where
  "bool_yield_example =
     \<lparr>ir = Block 0 1
        [c1 0 1, c1 1 0,
         Op 2 scf_if [BlockArgument 0 0] 3
           [[Block 1 0 [Op 3 (other_op ''a'') [] 1 [],
                        Op 4 scf_yield [OpResult 0 0, OpResult 1 0, OpResult 3 0] 0 []]],
            [Block 2 0 [Op 5 (other_op ''b'') [] 1 [],
                        Op 6 scf_yield [OpResult 1 0, OpResult 0 0, OpResult 5 0] 0 []]]],
         Op 7 (other_op ''use'') [OpResult 2 0, OpResult 2 1, OpResult 2 2] 0 []],
      nextId = 8, ip = InsertBefore 2\<rparr>"


text \<open>
  What the pattern does with a result position, read off the two yielded values: the
  common value, the condition, its negation, or nothing.
\<close>

datatype replacement = ByValue val | ByCondition | ByNegation | Kept

definition yieldReplacement :: "block \<Rightarrow> val \<Rightarrow> val \<Rightarrow> replacement" where
  "yieldReplacement root t f =
     (if t = f then ByValue t
      else (case (m_ConstantBool root t, m_ConstantBool root f) of
              (Some tv, Some fv) \<Rightarrow>
                if tv \<and> \<not> fv then ByCondition else if \<not> tv \<and> fv then ByNegation else Kept
            | _ \<Rightarrow> Kept))"

definition ifReplacement :: "block \<Rightarrow> nat \<Rightarrow> val list \<Rightarrow> val list \<Rightarrow> nat \<Rightarrow> replacement" where
  "ifReplacement root i ts fs k =
     (if use_empty root (OpResult i k) then Kept else yieldReplacement root (ts ! k) (fs ! k))"

text \<open>
  The identifier that is free after the first \<open>m\<close> positions, the operations created for
  them (a constant 1 and an xor for each negation), and the replacement of the results.
\<close>

fun ifFresh :: "(nat \<Rightarrow> replacement) \<Rightarrow> nat \<Rightarrow> nat \<Rightarrow> nat" where
  "ifFresh rep N 0 = N"
| "ifFresh rep N (Suc m) = (if rep m = ByNegation then ifFresh rep N m + 2 else ifFresh rep N m)"

fun ifNews :: "(nat \<Rightarrow> replacement) \<Rightarrow> val \<Rightarrow> nat \<Rightarrow> nat \<Rightarrow> op list" where
  "ifNews rep cond N 0 = []"
| "ifNews rep cond N (Suc m) =
     ifNews rep cond N m @
     (if rep m = ByNegation
      then [Op (ifFresh rep N m) (arith_constant (IntegerAttr (APInt 1 1))) [] 1 [],
            Op (Suc (ifFresh rep N m)) arith_xori [cond, OpResult (ifFresh rep N m) 0] 1 []]
      else [])"

definition ifSubst :: "(nat \<Rightarrow> replacement) \<Rightarrow> val \<Rightarrow> nat \<Rightarrow> nat \<Rightarrow> nat \<Rightarrow> val \<Rightarrow> val" where
  "ifSubst rep cond N i m v =
     (case v of
        OpResult j k \<Rightarrow>
          if j = i \<and> k < m
          then (case rep k of
                  ByValue t \<Rightarrow> t
                | ByCondition \<Rightarrow> cond
                | ByNegation \<Rightarrow> OpResult (Suc (ifFresh rep N k)) 0
                | Kept \<Rightarrow> v)
          else v
      | BlockArgument c k \<Rightarrow> v)"

definition same_yield_replaced :: rewriter where
  "same_yield_replaced =
     \<lparr>ir = Block 0 2
        [c64 0 9,
         Op 1 scf_if [BlockArgument 0 0] 2
           [[Block 1 0 [Op 2 scf_yield [OpResult 0 0, BlockArgument 0 1] 0 []]],
            [Block 2 0 [Op 3 scf_yield [OpResult 0 0, BlockArgument 0 1] 0 []]]],
         Op 4 (other_op ''use'') [OpResult 0 0, BlockArgument 0 1] 0 []],
      nextId = 5, ip = InsertBefore 1\<rparr>"

definition same_yield_pruned :: rewriter where
  "same_yield_pruned =
     \<lparr>ir = Block 0 2
        [c64 0 9,
         Op 5 scf_if [BlockArgument 0 0] 0
           [[Block 6 0 [Op 2 scf_yield [] 0 []]],
            [Block 7 0 [Op 3 scf_yield [] 0 []]]],
         Op 4 (other_op ''use'') [OpResult 0 0, BlockArgument 0 1] 0 []],
      nextId = 8, ip = InsertAtEnd 7\<rparr>"

section \<open>scf.while: loop-invariant arguments of the before block\<close>

text \<open>
  The accessors of \<open>WhileOp\<close> (SCF.cpp): the bodies are the first blocks of the two regions,
  the condition operation is the terminator of the before body, its arguments are its
  operands after the condition.
\<close>

definition getBeforeBody :: "op \<Rightarrow> block asserted" where
  "getBeforeBody x = (case getRegions x of (blk # _) # _ \<Rightarrow> Ok blk | _ \<Rightarrow> AssertFail)"

definition getAfterBody :: "op \<Rightarrow> block asserted" where
  "getAfterBody x = (case getRegions x of _ # (blk # _) # _ \<Rightarrow> Ok blk | _ \<Rightarrow> AssertFail)"

definition getConditionOp :: "op \<Rightarrow> op asserted" where
  "getConditionOp x =
     bindA (getBeforeBody x) (\<lambda>blk.
     bindA (getTerminator blk) (\<lambda>t. if op_name t = scf_condition then Ok t else AssertFail))"

definition getArgs :: "op \<Rightarrow> val list" where
  "getArgs c = tl (getOperands c)"

text \<open>
  Modelled from the spec: \<open>inlineRegionBefore(region, parent, before)\<close> with \<open>before\<close> the
  start of the destination region moves the blocks of a region to the front of another
  region (a ``block/region mutation primitive'').
\<close>

definition setRegion :: "nat \<Rightarrow> nat \<Rightarrow> block list \<Rightarrow> op \<Rightarrow> op" where
  "setRegion i r blocks x =
     (if op_id x = i
      then Op (op_id x) (op_name x) (getOperands x) (getNumResults x) ((getRegions x)[r := blocks])
      else x)"

definition inlineRegionBefore :: "nat \<Rightarrow> nat \<Rightarrow> nat \<Rightarrow> nat \<Rightarrow> rewriter \<Rightarrow> rewriter asserted" where
  "inlineRegionBefore source r dest r' rw =
     (case lookupOp (ir rw) source of
        None \<Rightarrow> AssertFail
      | Some x \<Rightarrow>
          if \<not> r < length (getRegions x) then AssertFail
          else
            let blocks = getRegions x ! r;
                rw1 = rw\<lparr>ir := map_block (setRegion source r []) id (ir rw)\<rparr>
            in (case lookupOp (ir rw1) dest of
                  None \<Rightarrow> AssertFail
                | Some d \<Rightarrow>
                    if \<not> r' < length (getRegions d) then AssertFail
                    else Ok (rw1\<lparr>ir := map_block (setRegion dest r' (blocks @ getRegions d ! r')) id
                                          (ir rw1)\<rparr>)))"

text \<open>
  The test of both loops of \<open>RemoveLoopInvariantArgsFromBeforeBlock::matchAndRewrite\<close>
  (SCF.cpp): the before argument \<open>index\<close> is a loop invariant when the yielded value is
  the initial value, or when it is the argument \<open>k\<close> of the after block and the operand
  \<open>k\<close> of the condition is that before argument or the initial value.
\<close>

definition isLoopInvariantArg :: "block \<Rightarrow> block \<Rightarrow> val list \<Rightarrow> nat \<Rightarrow> val \<Rightarrow> val \<Rightarrow> bool asserted" where
  "isLoopInvariantArg beforeBlock afterBlock condOpArgs index initVal yieldOpArg =
     (if yieldOpArg = initVal then Ok True
      else (case yieldOpArg of
              BlockArgument owner k \<Rightarrow>
                if owner = block_id afterBlock
                then (if \<not> k < length condOpArgs \<or> \<not> index < getNumArguments beforeBlock
                      then AssertFail
                      else Ok (condOpArgs ! k = BlockArgument (block_id beforeBlock) index
                               \<or> condOpArgs ! k = initVal))
                else Ok False
            | OpResult d k \<Rightarrow> Ok False))"

text \<open>The first loop: is there an invariant argument.\<close>

fun canSimplify :: "block \<Rightarrow> block \<Rightarrow> val list \<Rightarrow> nat \<Rightarrow> val list \<Rightarrow> val list \<Rightarrow> bool asserted" where
  "canSimplify bb ab cs index (initVal # inits) (yieldOpArg # ys) =
     bindA (isLoopInvariantArg bb ab cs index initVal yieldOpArg) (\<lambda>invariant.
       if invariant then Ok True else canSimplify bb ab cs (Suc index) inits ys)"
| "canSimplify bb ab cs index _ _ = Ok False"

text \<open>
  The second loop: the initial values and the yielded values of the arguments that are
  kept, and \<open>beforeBlockInitValMap\<close>, from the index of an invariant argument to its
  initial value.
\<close>

fun keptArgs :: "block \<Rightarrow> block \<Rightarrow> val list \<Rightarrow> nat \<Rightarrow> val list \<Rightarrow> val list \<Rightarrow>
    (val list \<times> val list \<times> (nat \<times> val) list) asserted" where
  "keptArgs bb ab cs index (initVal # inits) (yieldOpArg # ys) =
     bindA (isLoopInvariantArg bb ab cs index initVal yieldOpArg) (\<lambda>invariant.
     bindA (keptArgs bb ab cs (Suc index) inits ys) (\<lambda>(newInitArgs, newYieldOpArgs, initValMap).
       if invariant then Ok (newInitArgs, newYieldOpArgs, (index, initVal) # initValMap)
       else Ok (initVal # newInitArgs, yieldOpArg # newYieldOpArgs, initValMap)))"
| "keptArgs bb ab cs index _ _ = Ok ([], [], [])"

text \<open>
  The third loop: the value that replaces each argument of the before block, the initial
  value of an invariant argument, the next argument of the new before block otherwise.
\<close>

fun newBeforeBlockArgs :: "(nat \<times> val) list \<Rightarrow> nat \<Rightarrow> nat \<Rightarrow> nat \<Rightarrow> nat \<Rightarrow> nat \<Rightarrow> val list asserted" where
  "newBeforeBlockArgs initValMap newBlock numNew i j 0 = Ok []"
| "newBeforeBlockArgs initValMap newBlock numNew i j (Suc n) =
     (case map_of initValMap i of
        Some v \<Rightarrow> bindA (newBeforeBlockArgs initValMap newBlock numNew (Suc i) j n) (\<lambda>vs. Ok (v # vs))
      | None \<Rightarrow>
          if \<not> j < numNew then AssertFail
          else bindA (newBeforeBlockArgs initValMap newBlock numNew (Suc i) (Suc j) n)
                 (\<lambda>vs. Ok (BlockArgument newBlock j # vs)))"

text \<open>
  \<open>RemoveLoopInvariantArgsFromBeforeBlock::matchAndRewrite\<close> (SCF.cpp). The new scf.while
  is created with two empty regions; an insertion guard restores the insertion point
  after the terminator of the after block has been replaced.
\<close>

definition matchResult :: "rewriter option asserted \<Rightarrow> LogicalResult" where
  "matchResult m = (case m of Ok None \<Rightarrow> failure | Ok (Some rw) \<Rightarrow> success rw | AssertFail \<Rightarrow> crash)"

definition RemoveLoopInvariantArgsFromBeforeBlock :: "rewriter \<Rightarrow> nat \<Rightarrow> LogicalResult" where
  "RemoveLoopInvariantArgsFromBeforeBlock rw i =
     (case lookupOp (ir rw) i of
        None \<Rightarrow> crash
      | Some x \<Rightarrow>
          if op_name x \<noteq> scf_while then crash
          else matchResult
            (bindA (getAfterBody x) (\<lambda>afterBlock.
             bindA (getBeforeBody x) (\<lambda>beforeBlock.
             bindA (getConditionOp x) (\<lambda>condOp.
             bindA (getTerminator afterBlock) (\<lambda>yieldOp.
             bindA (canSimplify beforeBlock afterBlock (getArgs condOp) 0 (getOperands x)
                      (getOperands yieldOp)) (\<lambda>can.
               if \<not> can then Ok None
               else
                 bindA (keptArgs beforeBlock afterBlock (getArgs condOp) 0 (getOperands x)
                          (getOperands yieldOp)) (\<lambda>(newInitArgs, newYieldOpArgs, beforeBlockInitValMap).
                   let (newYield, rw1) =
                         createOp scf_yield newYieldOpArgs 0 [] (rw\<lparr>ip := InsertBefore (op_id yieldOp)\<rparr>)
                   in bindA (replaceOp (op_id yieldOp) [] rw1) (\<lambda>rw2.
                      let (newWhile, rw3) =
                            createOp scf_while newInitArgs (getNumResults x) [[], []] (rw2\<lparr>ip := ip rw\<rparr>);
                          (newBeforeBlock, rw4) = createBlock newWhile 0 (length newYieldOpArgs) rw3
                      in bindA (newBeforeBlockArgs beforeBlockInitValMap newBeforeBlock
                                  (length newYieldOpArgs) 0 0 (getNumArguments beforeBlock)) (\<lambda>args.
                         bindA (mergeBlocks (block_id beforeBlock) newBeforeBlock args rw4) (\<lambda>rw5.
                         bindA (inlineRegionBefore i 1 newWhile 1 rw5) (\<lambda>rw6.
                         bindA (replaceOp i (map (OpResult newWhile) [0..<getNumResults x]) rw6) (\<lambda>rw7.
                         Ok (Some rw7))))))))))))))"

text \<open>
  \<open>while (a0 = x, a1 = x) { c = cond(a0, a1); condition(c) a0, a1 }
     do (b0, b1) { n = next(b0); yield n, n }\<close>: two arguments with the same initial
  value and the same yielded value, results used once.
\<close>

definition same_pair_example :: rewriter where
  "same_pair_example =
     \<lparr>ir = Block 0 1
        [Op 1 scf_while [BlockArgument 0 0, BlockArgument 0 0] 2
           [[Block 1 2 [Op 2 (other_op ''cond'') [BlockArgument 1 0, BlockArgument 1 1] 1 [],
                        Op 3 scf_condition [OpResult 2 0, BlockArgument 1 0, BlockArgument 1 1] 0 []]],
            [Block 2 2 [Op 4 (other_op ''next'') [BlockArgument 2 0] 1 [],
                        Op 5 scf_yield [OpResult 4 0, OpResult 4 0] 0 []]]],
         Op 6 (other_op ''use'') [OpResult 1 0, OpResult 1 1] 0 []],
      nextId = 7, ip = InsertBefore 1\<rparr>"

text \<open>
  \<open>while (a0 = x, a1 = x) { c = cond(a0, a1); condition(c) a1 } do (b0) { yield b0, x }\<close>:
  \<open>a1\<close> is invariant, \<open>a0\<close> is yielded \<open>b0\<close>, which forwards \<open>a1\<close>.
\<close>

definition chained_example :: rewriter where
  "chained_example =
     \<lparr>ir = Block 0 1
        [Op 1 scf_while [BlockArgument 0 0, BlockArgument 0 0] 1
           [[Block 1 2 [Op 2 (other_op ''cond'') [BlockArgument 1 0, BlockArgument 1 1] 1 [],
                        Op 3 scf_condition [OpResult 2 0, BlockArgument 1 1] 0 []]],
            [Block 2 1 [Op 4 scf_yield [BlockArgument 2 0, BlockArgument 0 0] 0 []]]],
         Op 5 (other_op ''use'') [OpResult 1 0] 0 []],
      nextId = 6, ip = InsertBefore 1\<rparr>"


text \<open>The program that one application of the pattern makes of it.\<close>

definition chained_once :: rewriter where
  "chained_once =
     \<lparr>ir = Block 0 1
        [Op 7 scf_while [BlockArgument 0 0] 1
           [[Block 8 1 [Op 2 (other_op ''cond'') [BlockArgument 8 0, BlockArgument 0 0] 1 [],
                        Op 3 scf_condition [OpResult 2 0, BlockArgument 0 0] 0 []]],
            [Block 2 1 [Op 6 scf_yield [BlockArgument 2 0] 0 []]]],
         Op 5 (other_op ''use'') [OpResult 7 0] 0 []],
      nextId = 9, ip = InsertAtEnd 8\<rparr>"

text \<open>
  Reading the rewrite: the before argument \<open>k\<close> is invariant; the value that replaces it,
  its initial value or the argument of the new before block that takes its place.
\<close>

definition invariantAt :: "nat \<Rightarrow> nat \<Rightarrow> val list \<Rightarrow> val list \<Rightarrow> val list \<Rightarrow> nat \<Rightarrow> bool" where
  "invariantAt bb ab cargs inits ys k =
     (ys ! k = inits ! k \<or>
      (case ys ! k of
         BlockArgument owner q \<Rightarrow>
           owner = ab \<and> (cargs ! q = BlockArgument bb k \<or> cargs ! q = inits ! k)
       | OpResult d q \<Rightarrow> False))"

definition beforeArgValue :: "(nat \<Rightarrow> bool) \<Rightarrow> val list \<Rightarrow> nat \<Rightarrow> nat \<Rightarrow> val" where
  "beforeArgValue invariant inits newBlock k =
     (if invariant k then inits ! k
      else BlockArgument newBlock (length (filter (\<lambda>j. \<not> invariant j) [0..<k])))"

section \<open>scf.for: loops whose difference of bounds does not fit\<close>

text \<open>
  \<open>for i = 9223372036854775807 to -9223372036854775808 step 1 iter(x = 5)
     { y = work(i, x); yield y }\<close> on 64-bit integers: the upper bound is below the lower
  bound, the loop does not iterate.
\<close>

definition backwards_for_example :: rewriter where
  "backwards_for_example =
     \<lparr>ir = Block 0 0
        [c64 0 9223372036854775807, c64 1 9223372036854775808, c64 2 1, c64 3 5,
         Op 4 scf_for [OpResult 0 0, OpResult 1 0, OpResult 2 0, OpResult 3 0] 1
           [[Block 1 2 [Op 7 (other_op ''work'') [BlockArgument 1 0, BlockArgument 1 1] 1 [],
                        Op 5 scf_yield [OpResult 7 0] 0 []]]],
         Op 6 (other_op ''use'') [OpResult 4 0] 0 []],
      nextId = 8, ip = InsertBefore 4\<rparr>"

text \<open>
  \<open>for i = -1 to 9223372036854775807 step 1 iter(x = 5) { yield 9 }\<close> on 64-bit integers,
  with the constant 9 defined in front of the loop: a loop of \<open>2 ^ 63\<close> iterations with an
  empty body.
\<close>

definition wrapped_empty_for_example :: rewriter where
  "wrapped_empty_for_example =
     \<lparr>ir = Block 0 0
        [c64 0 18446744073709551615, c64 1 9223372036854775807, c64 2 1, c64 3 5, c64 7 9,
         Op 4 scf_for [OpResult 0 0, OpResult 1 0, OpResult 2 0, OpResult 3 0] 1
           [[Block 1 2 [Op 5 scf_yield [OpResult 7 0] 0 []]]],
         Op 6 (other_op ''use'') [OpResult 4 0] 0 []],
      nextId = 8, ip = InsertBefore 4\<rparr>"

text \<open>
  \<open>for i = 0 to 2 ^ 100 step 2 ^ 100 iter(x = 7) { y = i + x; yield y }\<close> on 128-bit
  integers: a loop of one iteration.
\<close>

definition c128 :: "nat \<Rightarrow> nat \<Rightarrow> op" where
  "c128 i v = Op i (arith_constant (IntegerAttr (APInt 128 v))) [] 1 []"

definition wide_for_example :: rewriter where
  "wide_for_example =
     \<lparr>ir = Block 0 0
        [c128 0 0, c128 1 1267650600228229401496703205376, c128 2 7,
         Op 3 scf_for [OpResult 0 0, OpResult 1 0, OpResult 1 0, OpResult 2 0] 1
           [[Block 1 2 [Op 4 arith_addi [BlockArgument 1 0, BlockArgument 1 1] 1 [],
                        Op 5 scf_yield [OpResult 4 0] 0 []]]],
         Op 6 (other_op ''use'') [OpResult 3 0] 0 []],
      nextId = 7, ip = InsertBefore 3\<rparr>"

section \<open>scf.if: nested conditionals\<close>

text \<open>
  Modelled from the spec: \<open>Block::without_terminator()\<close>, the operations of a block in
  front of its terminator; \<open>Value::getParentRegion()\<close>, the region that holds the
  defining operation of a result or the block of a block argument.
\<close>

definition without_terminator :: "block \<Rightarrow> op list" where
  "without_terminator x =
     (if block_ops x = [] \<or> \<not> isTerminator (op_name (last (block_ops x))) then block_ops x
      else butlast (block_ops x))"

definition definedInRegion :: "block list \<Rightarrow> val \<Rightarrow> bool" where
  "definedInRegion r v =
     (case v of
        OpResult d k \<Rightarrow> d \<in> set (map op_id (concat (map block_ops r)))
      | BlockArgument c k \<Rightarrow> c \<in> set (map block_id r))"

text \<open>
  The loop of \<open>CombineNestedIfs::matchAndRewrite\<close> (SCF.cpp) over the values yielded by the
  then block, from position \<open>idx\<close> on: the values that the new then block yields and the
  positions to upgrade to a select, or no value when the pattern fails.
\<close>

fun combineYields :: "op \<Rightarrow> block list \<Rightarrow> val list \<Rightarrow> nat \<Rightarrow> nat \<Rightarrow> val list \<Rightarrow> nat list \<Rightarrow>
    (val list \<times> nat list) option asserted" where
  "combineYields nestedIf thenRegion elseYield idx 0 thenYield elseYieldsToUpgradeToSelect =
     Ok (Some (thenYield, elseYieldsToUpgradeToSelect))"
| "combineYields nestedIf thenRegion elseYield idx (Suc n) thenYield elseYieldsToUpgradeToSelect =
     (if (case thenYield ! idx of OpResult d k \<Rightarrow> d = op_id nestedIf | BlockArgument c k \<Rightarrow> False)
      then (case thenYield ! idx of
              OpResult d nestedIdx \<Rightarrow>
                bindA (getYield (getRegions nestedIf ! 1)) (\<lambda>nestedElseYield.
                  if \<not> nestedIdx < length (getOperands nestedElseYield) \<or> \<not> idx < length elseYield
                  then AssertFail
                  else if getOperands nestedElseYield ! nestedIdx \<noteq> elseYield ! idx then Ok None
                  else bindA (getYield (getRegions nestedIf ! 0)) (\<lambda>nestedThenYield.
                    if \<not> nestedIdx < length (getOperands nestedThenYield) then AssertFail
                    else combineYields nestedIf thenRegion elseYield (Suc idx) n
                           (thenYield[idx := getOperands nestedThenYield ! nestedIdx])
                           elseYieldsToUpgradeToSelect))
            | BlockArgument c k \<Rightarrow> AssertFail)
      else if definedInRegion thenRegion (thenYield ! idx) then Ok None
      else combineYields nestedIf thenRegion elseYield (Suc idx) n thenYield
             (elseYieldsToUpgradeToSelect @ [idx]))"

text \<open>The loop that creates the selects and records them as the replacements.\<close>

fun createSelects :: "val \<Rightarrow> val list \<Rightarrow> val list \<Rightarrow> nat list \<Rightarrow> val list \<Rightarrow> rewriter \<Rightarrow>
    (val list \<times> rewriter) asserted" where
  "createSelects cond thenYield elseYield [] results rw = Ok (results, rw)"
| "createSelects cond thenYield elseYield (idx # idxs) results rw =
     (if \<not> idx < length results \<or> \<not> idx < length thenYield \<or> \<not> idx < length elseYield
      then AssertFail
      else let (sel, rw1) = createOp arith_select [cond, thenYield ! idx, elseYield ! idx] 1 [] rw
           in createSelects cond thenYield elseYield idxs (results[idx := OpResult sel 0]) rw1)"

text \<open>The rewrite of \<open>CombineNestedIfs::matchAndRewrite\<close>, once the match has succeeded.\<close>

definition combineRewrite ::
  "nat \<Rightarrow> val \<Rightarrow> val \<Rightarrow> nat \<Rightarrow> nat \<Rightarrow> val list \<Rightarrow> val list \<Rightarrow> nat list \<Rightarrow> rewriter \<Rightarrow> rewriter asserted" where
  "combineRewrite i cond nestedCond n nestedThenBlock thenYield elseYield elseYieldsToUpgradeToSelect rw =
     (let (newCondition, rw1) = createOp arith_andi [cond, nestedCond] 1 [] rw;
          (newIf, rw2) = createOp scf_if [OpResult newCondition 0] n [[], []] rw1;
          (newIfBlock, rw3) = createBlock newIf 0 0 rw2
      in bindA (createSelects cond thenYield elseYield elseYieldsToUpgradeToSelect
                  (map (OpResult newIf) [0..<n]) (rw3\<lparr>ip := InsertBefore newIf\<rparr>)) (\<lambda>(results, rw4).
         bindA (mergeBlocks nestedThenBlock newIfBlock [] rw4) (\<lambda>rw5.
         (case lookupBlock (ir rw5) newIfBlock of
            None \<Rightarrow> AssertFail
          | Some blk \<Rightarrow>
              bindA (getYield [blk]) (\<lambda>oldYield.
                let (newYield, rw6) = createOp scf_yield thenYield 0 [] (rw5\<lparr>ip := InsertAtEnd newIfBlock\<rparr>)
                in bindA (replaceOp (op_id oldYield) [] rw6) (\<lambda>rw7.
                   let rw8 = (if elseYield \<noteq> []
                              then let (elseBlock, rwa) = createBlock newIf 1 0 rw7;
                                       (elseYieldOp, rwb) = createOp scf_yield elseYield 0 [] rwa
                                   in rwb
                              else rw7)
                   in replaceOp i results rw8))))))"

text \<open>\<open>CombineNestedIfs::matchAndRewrite\<close> (SCF.cpp).\<close>

definition CombineNestedIfs :: "rewriter \<Rightarrow> nat \<Rightarrow> LogicalResult" where
  "CombineNestedIfs rw i =
     (case lookupOp (ir rw) i of
        Some (Op _ scf_if [cond] n [thenRegion, elseRegion]) \<Rightarrow>
          matchResult
            (if thenRegion = [] then AssertFail
             else if length (without_terminator (last thenRegion)) \<noteq> 1 then Ok None
             else if elseRegion \<noteq> [] \<and> length (block_ops (last elseRegion)) \<noteq> 1 then Ok None
             else
               (case hd (without_terminator (last thenRegion)) of
                  Op j nestedName nestedOperands m nestedRegions \<Rightarrow>
                    if nestedName \<noteq> scf_if then Ok None
                    else
                      (case (nestedOperands, nestedRegions) of
                         ([nestedCond], [nestedThen, nestedElse]) \<Rightarrow>
                           if nestedElse \<noteq> [] \<and> length (block_ops (last nestedElse)) \<noteq> 1 then Ok None
                           else
                             bindA (getYield thenRegion) (\<lambda>thenYieldOp.
                             bindA (if elseRegion = [] then Ok []
                                    else bindA (getYield elseRegion) (\<lambda>y. Ok (getOperands y))) (\<lambda>elseYield.
                             bindA (combineYields (Op j nestedName nestedOperands m nestedRegions) thenRegion
                                      elseYield 0 (length (getOperands thenYieldOp)) (getOperands thenYieldOp) [])
                               (\<lambda>r. case r of
                                      None \<Rightarrow> Ok None
                                    | Some (thenYield, elseYieldsToUpgradeToSelect) \<Rightarrow>
                                        if nestedThen = [] then AssertFail
                                        else bindA (combineRewrite i cond nestedCond n
                                                      (block_id (last nestedThen)) thenYield elseYield
                                                      elseYieldsToUpgradeToSelect rw)
                                               (\<lambda>rw'. Ok (Some rw')))))
                       | _ \<Rightarrow> AssertFail)))
      | _ \<Rightarrow> crash)"

text \<open>
  \<open>r:2 = if c1 { n = if c2 { w = work; yield w } else { yield e }; yield n, v }
          else { yield e, f }\<close>, both results used once; \<open>c1, c2, e, v, f\<close> are arguments of
  the parent block.
\<close>

definition nested_if_example :: rewriter where
  "nested_if_example =
     \<lparr>ir = Block 0 5
        [Op 1 scf_if [BlockArgument 0 0] 2
           [[Block 1 0
               [Op 2 scf_if [BlockArgument 0 1] 1
                  [[Block 2 0 [Op 3 (other_op ''work'') [] 1 [], Op 4 scf_yield [OpResult 3 0] 0 []]],
                   [Block 3 0 [Op 5 scf_yield [BlockArgument 0 2] 0 []]]],
                Op 6 scf_yield [OpResult 2 0, BlockArgument 0 3] 0 []]],
            [Block 4 0 [Op 7 scf_yield [BlockArgument 0 2, BlockArgument 0 4] 0 []]]],
         Op 8 (other_op ''use'') [OpResult 1 0, OpResult 1 1] 0 []],
      nextId = 9, ip = InsertBefore 1\<rparr>"

text \<open>The same program with the inner else block yielding \<open>f\<close> where the outer yields \<open>e\<close>.\<close>

definition nested_if_mismatch_example :: rewriter where
  "nested_if_mismatch_example =
     \<lparr>ir = Block 0 5
        [Op 1 scf_if [BlockArgument 0 0] 2
           [[Block 1 0
               [Op 2 scf_if [BlockArgument 0 1] 1
                  [[Block 2 0 [Op 3 (other_op ''work'') [] 1 [], Op 4 scf_yield [OpResult 3 0] 0 []]],
                   [Block 3 0 [Op 5 scf_yield [BlockArgument 0 4] 0 []]]],
                Op 6 scf_yield [OpResult 2 0, BlockArgument 0 3] 0 []]],
            [Block 4 0 [Op 7 scf_yield [BlockArgument 0 2, BlockArgument 0 4] 0 []]]],
         Op 8 (other_op ''use'') [OpResult 1 0, OpResult 1 1] 0 []],
      nextId = 9, ip = InsertBefore 1\<rparr>"

text \<open>
  Reading the rewrite: the value comes from the nested scf.if; the value that the new then
  block yields in its place; the pattern refuses position \<open>k\<close>; the selects created for
  the positions to upgrade, numbered from \<open>N\<close>, and the replacements of the results.
\<close>

definition fromNested :: "nat \<Rightarrow> val \<Rightarrow> bool" where
  "fromNested j v = (case v of OpResult d q \<Rightarrow> d = j | BlockArgument c q \<Rightarrow> False)"

definition combinedYield :: "nat \<Rightarrow> val list \<Rightarrow> val \<Rightarrow> val" where
  "combinedYield j nestedThenYield v =
     (case v of OpResult d q \<Rightarrow> if d = j then nestedThenYield ! q else v | BlockArgument c q \<Rightarrow> v)"

definition refusesAt :: "nat \<Rightarrow> val list \<Rightarrow> val list \<Rightarrow> val list \<Rightarrow> nat \<Rightarrow> bool" where
  "refusesAt j nestedElseYield thenYield elseYield k =
     (case thenYield ! k of
        OpResult d q \<Rightarrow> d = j \<and> nestedElseYield ! q \<noteq> elseYield ! k
      | BlockArgument c q \<Rightarrow> False)"

fun selectOps :: "val \<Rightarrow> val list \<Rightarrow> val list \<Rightarrow> nat \<Rightarrow> nat list \<Rightarrow> op list" where
  "selectOps cond thenYield elseYield N [] = []"
| "selectOps cond thenYield elseYield N (idx # idxs) =
     Op N arith_select [cond, thenYield ! idx, elseYield ! idx] 1 [] #
     selectOps cond thenYield elseYield (Suc N) idxs"

fun selectResults :: "nat \<Rightarrow> nat list \<Rightarrow> val list \<Rightarrow> val list" where
  "selectResults N [] results = results"
| "selectResults N (idx # idxs) results = selectResults (Suc N) idxs (results[idx := OpResult N 0])"

text \<open>The identifiers of the operations and of the blocks of a region.\<close>

definition region_op_ids :: "block list \<Rightarrow> nat set" where
  "region_op_ids bs = op_id ` set (concat (map ops_of_block bs))"

definition region_block_ids :: "block list \<Rightarrow> nat set" where
  "region_block_ids bs = block_id ` set (concat (map blocks_of_block bs))"

text \<open>
  \<open>nested_if_example\<close> after the pattern: \<open>c = andi c1, c2; s = select c1, v, f;
  r:2 = if c { w = work; yield w, v } else { yield e, f }\<close>, the uses hold the first
  result of the new scf.if and the select.
\<close>

definition nested_if_combined :: rewriter where
  "nested_if_combined =
     \<lparr>ir = Block 0 5
        [Op 9 arith_andi [BlockArgument 0 0, BlockArgument 0 1] 1 [],
         Op 12 arith_select [BlockArgument 0 0, BlockArgument 0 3, BlockArgument 0 4] 1 [],
         Op 10 scf_if [OpResult 9 0] 2
           [[Block 11 0 [Op 3 (other_op ''work'') [] 1 [],
                         Op 13 scf_yield [OpResult 3 0, BlockArgument 0 3] 0 []]],
            [Block 14 0 [Op 15 scf_yield [BlockArgument 0 2, BlockArgument 0 4] 0 []]]],
         Op 8 (other_op ''use'') [OpResult 10 0, OpResult 12 0] 0 []],
      nextId = 16, ip = InsertAtEnd 14\<rparr>"

section \<open>Properties of the substrate\<close>

subsection \<open>Substitution on trees\<close>

lemma subst_comp_aux:
  fixes x :: op and y :: block
  shows "map_op (setOperands s2) id (map_op (setOperands s1) id x) = map_op (setOperands (s2 \<circ> s1)) id x"
    and "map_block (setOperands s2) id (map_block (setOperands s1) id y) = map_block (setOperands (s2 \<circ> s1)) id y"
  by (induction x and y) (auto simp: setOperands_def)

lemma substOp_substOp: "substOp s2 (substOp s1 x) = substOp (s2 \<circ> s1) x"
  by (simp add: substOp_def subst_comp_aux)

lemma substBlock_substBlock: "substBlock s2 (substBlock s1 y) = substBlock (s2 \<circ> s1) y"
  by (simp add: substBlock_def subst_comp_aux)

lemma substOp_Op [simp]:
  "substOp s (Op i n os k rs) = Op i n (map s os) k (map (map (substBlock s)) rs)"
  by (simp add: substOp_def substBlock_def setOperands_def)

lemma substBlock_Block [simp]:
  "substBlock s (Block b a ops) = Block b a (map (substOp s) ops)"
  by (simp add: substOp_def substBlock_def)

lemma substOp_sel [simp]:
  "op_id (substOp s x) = op_id x" "op_name (substOp s x) = op_name x"
  "getNumResults (substOp s x) = getNumResults x"
  "getOperands (substOp s x) = map s (getOperands x)"
  "getRegions (substOp s x) = map (map (substBlock s)) (getRegions x)"
  by (cases x; simp)+

lemma substBlock_sel [simp]:
  "block_id (substBlock s y) = block_id y" "getNumArguments (substBlock s y) = getNumArguments y"
  "block_ops (substBlock s y) = map (substOp s) (block_ops y)"
  by (cases y; simp)+

lemma subst_ident_aux:
  fixes x :: op and y :: block
  shows "substOp (\<lambda>v. v) x = x" and "substBlock (\<lambda>v. v) y = y"
  by (induction x and y) (simp_all add: map_idI)

lemma ops_of_subst_aux:
  fixes x :: op and y :: block
  shows "ops_of_op (substOp s x) = map (substOp s) (ops_of_op x)"
    and "ops_of_block (substBlock s y) = map (substOp s) (ops_of_block y)"
  by (induction x and y) (simp_all add: map_concat o_def cong: map_cong)

lemma blocks_of_subst_aux:
  fixes x :: op and y :: block
  shows "blocks_of_op (substOp s x) = map (substBlock s) (blocks_of_op x)"
    and "blocks_of_block (substBlock s y) = map (substBlock s) (blocks_of_block y)"
  by (induction x and y) (simp_all add: map_concat o_def cong: map_cong)

lemma ops_of_list_subst: "ops_of_list (map (substOp s) xs) = map (substOp s) (ops_of_list xs)"
  by (simp add: ops_of_list_def map_concat o_def ops_of_subst_aux)

lemma op_ids_subst [simp]: "op_ids (map (substOp s) xs) = op_ids xs"
  by (simp add: op_ids_def ops_of_list_subst o_def)

lemma block_ids_subst [simp]: "block_ids (map (substOp s) xs) = block_ids xs"
  by (simp add: block_ids_def map_concat o_def blocks_of_subst_aux)

lemma find_map_id:
  "(\<And>x. P (f x) = P x) \<Longrightarrow> find P (map f xs) = map_option f (find P xs)"
  by (induction xs) auto

lemma lookupOp_subst: "lookupOp (substBlock s root) i = map_option (substOp s) (lookupOp root i)"
  by (simp add: lookupOp_def ops_of_subst_aux find_map_id)

lemma lookupBlock_subst:
  "lookupBlock (substBlock s root) b = map_option (substBlock s) (lookupBlock root b)"
  by (simp add: lookupBlock_def blocks_of_subst_aux find_map_id)

subsection \<open>Sequential and simultaneous replacement\<close>

lemma replaceAllUsesWith_range_ir:
  "replaceAllUsesWith_range fs ts rw = rw\<lparr>ir := substBlock (replaceValues fs ts) (ir rw)\<rparr>"
proof (induction fs ts rw rule: replaceAllUsesWith_range.induct)
  case (1 f fs t ts rw)
  have comp: "replaceValues (f # fs) (t # ts) = replaceValues fs ts \<circ> replaceValue f t"
    by (rule ext) simp
  have "replaceAllUsesWith_range (f # fs) (t # ts) rw =
        (replaceAllUsesWith f t rw)\<lparr>ir := substBlock (replaceValues fs ts) (ir (replaceAllUsesWith f t rw))\<rparr>"
    using 1 by simp
  also have "\<dots> = rw\<lparr>ir := substBlock (replaceValues (f # fs) (t # ts)) (ir rw)\<rparr>"
    unfolding comp by (simp add: replaceAllUsesWith_def substBlock_substBlock)
  finally show ?case .
qed (simp_all add: subst_ident_aux)

lemma replaceValues_fixed:
  "v \<notin> set fs \<Longrightarrow> replaceValues fs ts v = v"
  by (induction fs ts v rule: replaceValues.induct) (auto simp: replaceValue_def)

lemma replaceValues_substitute:
  "distinct fs \<Longrightarrow> set ts \<inter> set fs = {} \<Longrightarrow> replaceValues fs ts v = substitute fs ts v"
proof (induction fs ts v rule: replaceValues.induct)
  case (1 f fs t ts v)
  show ?case
  proof (cases "v = f")
    case True
    have "t \<notin> set fs" using 1(3) by auto
    then show ?thesis using True
      by (simp add: replaceValue_def replaceValues_fixed substitute_def)
  next
    case False
    then have same: "replaceValue f t v = v" by (simp add: replaceValue_def)
    have "replaceValues fs ts v = substitute fs ts v"
      using 1 same by auto
    then show ?thesis using False same
      by (simp add: substitute_def)
  qed
qed (simp_all add: substitute_def)


subsection \<open>Identifiers and lookups\<close>

lemma ops_of_op_head: "ops_of_op x = x # tl (ops_of_op x)"
  by (cases x) simp

lemma self_in_ops_of_op [simp]: "x \<in> set (ops_of_op x)"
  by (cases x) simp

lemma self_in_blocks_of_block [simp]: "y \<in> set (blocks_of_block y)"
  by (cases y) simp

lemma ops_of_list_append [simp]: "ops_of_list (xs @ ys) = ops_of_list xs @ ops_of_list ys"
  by (simp add: ops_of_list_def)

lemma ops_of_list_Cons [simp]: "ops_of_list (x # xs) = ops_of_op x @ ops_of_list xs"
  by (simp add: ops_of_list_def)

lemma ops_of_list_Nil [simp]: "ops_of_list [] = []"
  by (simp add: ops_of_list_def)

lemma ops_of_block_list: "ops_of_block (Block b a ops) = ops_of_list ops"
  by (simp add: ops_of_list_def)

lemma op_ids_append [simp]: "op_ids (xs @ ys) = op_ids xs \<union> op_ids ys"
  by (simp add: op_ids_def)

lemma op_ids_Cons: "op_ids (x # xs) = op_id ` set (ops_of_op x) \<union> op_ids xs"
  by (simp add: op_ids_def)

lemma op_ids_Nil [simp]: "op_ids [] = {}"
  by (simp add: op_ids_def)

lemma op_id_in_op_ids: "x \<in> set xs \<Longrightarrow> op_id x \<in> op_ids xs"
  using self_in_ops_of_op[of x] by (force simp: op_ids_def ops_of_list_def)

lemma block_ids_append [simp]: "block_ids (xs @ ys) = block_ids xs \<union> block_ids ys"
  by (simp add: block_ids_def)

lemma block_ids_Cons: "block_ids (x # xs) = block_id ` set (blocks_of_op x) \<union> block_ids xs"
  by (simp add: block_ids_def)

lemma block_ids_Nil [simp]: "block_ids [] = {}"
  by (simp add: block_ids_def)

lemma find_absent: "(\<And>x. x \<in> set xs \<Longrightarrow> \<not> P x) \<Longrightarrow> find P xs = None"
  by (induction xs) auto

lemma find_skip: "(\<And>x. x \<in> set xs \<Longrightarrow> \<not> P x) \<Longrightarrow> find P (xs @ ys) = find P ys"
  by (induction xs) auto

lemma in_op_ids: "z \<in> set (ops_of_list xs) \<Longrightarrow> op_id z \<in> op_ids xs"
  by (simp add: op_ids_def)

lemma find_op_skip:
  assumes "i \<notin> op_ids pre"
  shows "find (\<lambda>z. op_id z = i) (ops_of_list pre @ rest) = find (\<lambda>z. op_id z = i) rest"
proof (rule find_skip)
  fix z assume "z \<in> set (ops_of_list pre)"
  then show "op_id z \<noteq> i" using assms in_op_ids by blast
qed

lemma lookupOp_Block: "lookupOp (Block b a xs) i = find (\<lambda>z. op_id z = i) (ops_of_list xs)"
  by (simp add: lookupOp_def ops_of_list_def)

lemma lookupOp_at:
  assumes "op_id x \<notin> op_ids pre"
  shows "lookupOp (Block b a (pre @ x # post)) (op_id x) = Some x"
proof -
  have "find (\<lambda>z. op_id z = op_id x) (ops_of_op x @ ops_of_list post) = Some x"
    by (subst ops_of_op_head) simp
  then show ?thesis
    unfolding lookupOp_Block ops_of_list_append ops_of_list_Cons find_op_skip[OF assms] .
qed

lemma lookupOp_skip:
  assumes "i \<notin> op_ids pre"
  shows "lookupOp (Block b a (pre @ post)) i = lookupOp (Block b a post) i"
  unfolding lookupOp_Block ops_of_list_append find_op_skip[OF assms] ..

lemma lookupOp_None: "i \<notin> op_ids xs \<Longrightarrow> lookupOp (Block b a xs) i = None"
  using find_op_skip[of i xs "[]"] unfolding lookupOp_Block by simp

subsection \<open>Rewrites that do not find their target\<close>

lemma map_ident_aux:
  fixes x :: op and y :: block
  shows "(\<And>z. z \<in> set (ops_of_op x) \<Longrightarrow> f z = z) \<Longrightarrow>
         (\<And>z. z \<in> set (blocks_of_op x) \<Longrightarrow> g z = z) \<Longrightarrow> map_op f g x = x"
    and "(\<And>z. z \<in> set (ops_of_block y) \<Longrightarrow> f z = z) \<Longrightarrow>
         (\<And>z. z \<in> set (blocks_of_block y) \<Longrightarrow> g z = z) \<Longrightarrow> map_block f g y = y"
proof (induction x and y)
  case (Op i n os k rs)
  have "map_block f g c = c" if "r \<in> set rs" "c \<in> set r" for r c
    using that Op.prems by (intro Op.IH[OF that]) auto
  then have "map (map (map_block f g)) rs = rs"
    by (simp add: map_idI)
  then show ?case using Op.prems(1) by simp
next
  case (Block b a ops)
  have "map_op f g z = z" if "z \<in> set ops" for z
    using that Block.prems by (intro Block.IH[OF that]) auto
  then have "map (map_op f g) ops = ops"
    by (simp add: map_idI)
  then show ?case using Block.prems(2) by simp
qed

lemma block_ops_below_aux:
  fixes x :: op and y :: block
  shows "z \<in> set (blocks_of_op x) \<Longrightarrow> set (block_ops z) \<subseteq> set (ops_of_op x)"
    and "z \<in> set (blocks_of_block y) \<Longrightarrow> set (block_ops z) \<subseteq> set (ops_of_block y)"
proof (induction x and y)
  case (Op i n os k rs)
  then show ?case by fastforce
next
  case (Block b a ops)
  show ?case
  proof (cases "z = Block b a ops")
    case True
    then show ?thesis by auto
  next
    case False
    then obtain w where "w \<in> set ops" "z \<in> set (blocks_of_op w)"
      using Block.prems by auto
    then show ?thesis using Block.IH by fastforce
  qed
qed

lemma regions_below_aux:
  fixes x :: op and y :: block
  shows "z \<in> set (ops_of_op x) \<Longrightarrow> r \<in> set (getRegions z) \<Longrightarrow> set r \<subseteq> set (blocks_of_op x)"
    and "z \<in> set (ops_of_block y) \<Longrightarrow> r \<in> set (getRegions z) \<Longrightarrow> set r \<subseteq> set (blocks_of_block y)"
proof (induction x and y)
  case (Op i n os k rs)
  show ?case
  proof (cases "z = Op i n os k rs")
    case True
    then show ?thesis using Op.prems(2) self_in_blocks_of_block by force
  next
    case False
    then obtain q c where "q \<in> set rs" "c \<in> set q" "z \<in> set (ops_of_block c)"
      using Op.prems(1) by auto
    then show ?thesis using Op.IH Op.prems(2) by fastforce
  qed
next
  case (Block b a ops)
  then show ?case by fastforce
qed


lemma op_id_map_op_id [simp]: "op_id (map_op id g x) = op_id x"
  by (cases x) simp

lemma removeOp_absent_op:
  assumes "i \<notin> op_id ` set (ops_of_op x)"
  shows "map_op id (removeOp i) x = x"
proof (rule map_ident_aux(1))
  fix z assume "z \<in> set (blocks_of_op x)"
  then have "set (block_ops z) \<subseteq> set (ops_of_op x)"
    by (rule block_ops_below_aux(1))
  then have "filter (\<lambda>y. op_id y \<noteq> i) (block_ops z) = block_ops z"
    using assms by (intro filter_True) auto
  then show "removeOp i z = z"
    by (simp add: removeOp_def)
qed simp

lemma removeOp_absent_list:
  assumes "i \<notin> op_ids xs"
  shows "map (map_op id (removeOp i)) xs = xs"
proof (rule map_idI)
  fix x assume "x \<in> set xs"
  then have "i \<notin> op_id ` set (ops_of_op x)"
    using assms by (auto simp: op_ids_def ops_of_list_def)
  then show "map_op id (removeOp i) x = x"
    by (rule removeOp_absent_op)
qed

lemma eraseOp_at:
  assumes "i \<notin> op_ids pre" "i \<notin> op_ids post" "op_id x = i"
  shows "map_block id (removeOp i) (Block b a (pre @ x # post)) = Block b a (pre @ post)"
proof -
  have "op_id y \<noteq> i" if "y \<in> set pre \<union> set post" for y
    using that assms(1,2) op_id_in_op_ids by blast
  then have "filter (\<lambda>y. op_id y \<noteq> i) pre = pre" "filter (\<lambda>y. op_id y \<noteq> i) post = post"
    by (auto intro!: filter_True)
  then show ?thesis
    using assms by (simp add: removeOp_def removeOp_absent_list)
qed

lemma ops_of_op_Op: "ops_of_op (Op i n os k rs) = Op i n os k rs # ops_of_regions rs"
  by (simp add: ops_of_regions_def)

lemma ops_of_block_Block: "ops_of_block (Block b a xs) = ops_of_list xs"
  by (simp add: ops_of_list_def)

lemma blocks_of_op_Op: "blocks_of_op (Op i n os k rs) = blocks_of_regions rs"
  by (simp add: blocks_of_regions_def)

lemma blocks_of_block_Block: "blocks_of_block (Block b a xs) = Block b a xs # blocks_of_list xs"
  by (simp add: blocks_of_list_def)

declare ops_of_op.simps [simp del] ops_of_block.simps [simp del]
declare blocks_of_op.simps [simp del] blocks_of_block.simps [simp del]
declare ops_of_op_Op [simp] ops_of_block_Block [simp] blocks_of_op_Op [simp]
declare blocks_of_block_Block [simp]

lemma ops_of_regions_simps [simp]:
  "ops_of_regions [] = []"
  "ops_of_regions (r # rs) = concat (map ops_of_block r) @ ops_of_regions rs"
  "ops_of_regions (rs1 @ rs2) = ops_of_regions rs1 @ ops_of_regions rs2"
  by (simp_all add: ops_of_regions_def)

lemma blocks_of_regions_simps [simp]:
  "blocks_of_regions [] = []"
  "blocks_of_regions (r # rs) = concat (map blocks_of_block r) @ blocks_of_regions rs"
  "blocks_of_regions (rs1 @ rs2) = blocks_of_regions rs1 @ blocks_of_regions rs2"
  by (simp_all add: blocks_of_regions_def)

lemma blocks_of_list_simps [simp]:
  "blocks_of_list [] = []"
  "blocks_of_list (x # xs) = blocks_of_op x @ blocks_of_list xs"
  "blocks_of_list (xs @ ys) = blocks_of_list xs @ blocks_of_list ys"
  by (simp_all add: blocks_of_list_def)

lemma block_ids_list: "block_ids xs = block_id ` set (blocks_of_list xs)"
  by (simp add: block_ids_def blocks_of_list_def)

lemma op_ids_list: "op_ids xs = op_id ` set (ops_of_list xs)"
  by (simp add: op_ids_def)

text \<open>The operations of a block below an operation lie strictly below it.\<close>

lemma block_ops_strictly_below:
  assumes "z \<in> set (blocks_of_op x)"
  shows "set (block_ops z) \<subseteq> set (tl (ops_of_op x))"
proof (cases x)
  case (Op i n os k rs)
  then obtain r c where rc: "r \<in> set rs" "c \<in> set r" "z \<in> set (blocks_of_block c)"
    using assms by (auto simp: blocks_of_regions_def)
  then have "set (block_ops z) \<subseteq> set (ops_of_block c)"
    using block_ops_below_aux(2) by blast
  then show ?thesis using Op rc by (auto simp: ops_of_regions_def)
qed

lemma regions_strictly_below:
  assumes "z \<in> set (ops_of_block y)" "r \<in> set (getRegions z)"
  shows "set r \<subseteq> set (tl (blocks_of_block y))"
proof (cases y)
  case (Block b a ops)
  then obtain w where w: "w \<in> set ops" "z \<in> set (ops_of_op w)"
    using assms(1) by (auto simp: ops_of_list_def)
  then have "set r \<subseteq> set (blocks_of_op w)"
    using regions_below_aux(1) assms(2) by blast
  then show ?thesis using Block w by (auto simp: blocks_of_list_def)
qed

subsection \<open>Splicing in front of an operation\<close>

lemma splice_list_absent:
  "(\<And>y. y \<in> set ys \<Longrightarrow> op_id y \<noteq> i) \<Longrightarrow>
   concat (map (\<lambda>y. if op_id y = i then new @ [y] else [y]) ys) = ys"
  by (induction ys) auto

lemma spliceBefore_absent_op:
  assumes "i \<notin> op_id ` set (tl (ops_of_op x))"
  shows "map_op id (spliceBefore i new) x = x"
proof (rule map_ident_aux(1))
  fix z assume "z \<in> set (blocks_of_op x)"
  then have "set (block_ops z) \<subseteq> set (tl (ops_of_op x))"
    by (rule block_ops_strictly_below)
  then have "\<And>y. y \<in> set (block_ops z) \<Longrightarrow> op_id y \<noteq> i"
    using assms by auto
  then show "spliceBefore i new z = z"
    by (simp add: spliceBefore_def splice_list_absent)
qed simp

lemma spliceBefore_absent_list:
  assumes "i \<notin> op_ids xs"
  shows "map (map_op id (spliceBefore i new)) xs = xs"
proof (rule map_idI)
  fix x assume "x \<in> set xs"
  then have "i \<notin> op_id ` set (ops_of_op x)"
    using assms by (auto simp: op_ids_def ops_of_list_def)
  then have "i \<notin> op_id ` set (tl (ops_of_op x))"
    by (metis image_iff list.set_sel(2) list.sel(2) empty_iff empty_set)
  then show "map_op id (spliceBefore i new) x = x"
    by (rule spliceBefore_absent_op)
qed

lemma spliceBefore_at:
  assumes "i \<notin> op_ids pre" "i \<notin> op_ids post" "op_id x = i"
      and "i \<notin> op_id ` set (tl (ops_of_op x))"
  shows "map_block id (spliceBefore i new) (Block b a (pre @ x # post)) =
         Block b a (pre @ new @ x # post)"
proof -
  have "\<And>y. y \<in> set pre \<Longrightarrow> op_id y \<noteq> i" "\<And>y. y \<in> set post \<Longrightarrow> op_id y \<noteq> i"
    using assms(1,2) op_id_in_op_ids by blast+
  then have "concat (map (\<lambda>y. if op_id y = i then new @ [y] else [y]) (pre @ x # post)) =
             pre @ new @ x # post"
    using assms(3) by (simp add: splice_list_absent)
  then show ?thesis
    using assms by (simp add: spliceBefore_def spliceBefore_absent_list spliceBefore_absent_op)
qed

subsection \<open>Erasing a block\<close>

lemma removeBlock_absent_block:
  assumes "c \<notin> block_id ` set (tl (blocks_of_block y))"
  shows "map_block (removeBlock c) id y = y"
proof (rule map_ident_aux(2))
  fix z assume z: "z \<in> set (ops_of_block y)"
  have "filter (\<lambda>w. block_id w \<noteq> c) r = r" if "r \<in> set (getRegions z)" for r
  proof (intro filter_True ballI)
    fix w assume "w \<in> set r"
    then have "w \<in> set (tl (blocks_of_block y))"
      using regions_strictly_below[OF z that] by auto
    then show "block_id w \<noteq> c" using assms by auto
  qed
  then have "map (filter (\<lambda>w. block_id w \<noteq> c)) (getRegions z) = getRegions z"
    by (simp add: map_idI)
  then show "removeBlock c z = z"
    by (simp add: removeBlock_def)
qed simp

lemma removeBlock_absent_op:
  assumes "c \<notin> block_id ` set (blocks_of_op x)"
  shows "map_op (removeBlock c) id x = x"
proof (rule map_ident_aux(1))
  fix z assume z: "z \<in> set (ops_of_op x)"
  have "filter (\<lambda>w. block_id w \<noteq> c) r = r" if "r \<in> set (getRegions z)" for r
  proof (intro filter_True ballI)
    fix w assume "w \<in> set r"
    then have "w \<in> set (blocks_of_op x)"
      using regions_below_aux(1)[OF z that] by auto
    then show "block_id w \<noteq> c" using assms by auto
  qed
  then have "map (filter (\<lambda>w. block_id w \<noteq> c)) (getRegions z) = getRegions z"
    by (simp add: map_idI)
  then show "removeBlock c z = z"
    by (simp add: removeBlock_def)
qed simp

lemma removeBlock_absent_list:
  assumes "c \<notin> block_ids xs"
  shows "map (map_op (removeBlock c) id) xs = xs"
proof (rule map_idI)
  fix x assume "x \<in> set xs"
  then have "c \<notin> block_id ` set (blocks_of_op x)"
    using assms by (auto simp: block_ids_def)
  then show "map_op (removeBlock c) id x = x"
    by (rule removeBlock_absent_op)
qed

lemma removeBlock_absent_regions:
  assumes "c \<notin> block_id ` set (blocks_of_regions rs)"
  shows "map (map (map_block (removeBlock c) id)) rs = rs"
    and "map (filter (\<lambda>w. block_id w \<noteq> c)) rs = rs"
proof -
  have in_regions: "set (blocks_of_block y) \<subseteq> set (blocks_of_regions rs)"
    if "r \<in> set rs" "y \<in> set r" for r y
    using that by (auto simp: blocks_of_regions_def)
  have "map_block (removeBlock c) id y = y" if "r \<in> set rs" "y \<in> set r" for r y
  proof (rule removeBlock_absent_block)
    have "set (tl (blocks_of_block y)) \<subseteq> set (blocks_of_block y)"
      by (cases "blocks_of_block y") auto
    then show "c \<notin> block_id ` set (tl (blocks_of_block y))"
      using in_regions[OF that] assms by auto
  qed
  then show "map (map (map_block (removeBlock c) id)) rs = rs"
    by (simp add: map_idI)
  have "block_id y \<noteq> c" if "r \<in> set rs" "y \<in> set r" for r y
    using in_regions[OF that] assms by (metis self_in_blocks_of_block subsetD imageI)
  then show "map (filter (\<lambda>w. block_id w \<noteq> c)) rs = rs"
    by (simp add: map_idI filter_True)
qed

lemma eraseBlock_at:
  assumes "c \<notin> block_ids pre" "c \<notin> block_ids post"
      and "c \<notin> block_id ` set (blocks_of_regions rs1)" "c \<notin> block_id ` set (blocks_of_regions rs2)"
      and "c \<notin> block_id ` set (blocks_of_list body)"
  shows "map_block (removeBlock c) id
           (Block b a (pre @ Op i n os k (rs1 @ [Block c m body] # rs2) # post)) =
         Block b a (pre @ Op i n os k (rs1 @ [] # rs2) # post)"
proof -
  have "map_block (removeBlock c) id (Block c m body) = Block c m body"
    by (rule removeBlock_absent_block) (use assms(5) in \<open>simp add: blocks_of_list_def\<close>)
  then have "map_op (removeBlock c) id (Op i n os k (rs1 @ [Block c m body] # rs2)) =
        Op i n os k (rs1 @ [] # rs2)"
    using removeBlock_absent_regions[OF assms(3)] removeBlock_absent_regions[OF assms(4)]
    by (simp add: removeBlock_def)
  then show ?thesis
    using assms(1,2) by (simp add: removeBlock_absent_list)
qed


subsection \<open>Replacing an operation\<close>

lemma distinct_getResults [simp]: "distinct (getResults x)"
  by (simp add: getResults_def distinct_map inj_on_def)

lemma replaceOp_at:
  assumes root: "ir rw = Block b a (pre @ x # post)"
      and ids: "op_id x \<notin> op_ids pre" "op_id x \<notin> op_ids post"
      and len: "length vs = getNumResults x"
      and fresh: "set vs \<inter> set (getResults x) = {}"
  shows "replaceOp (op_id x) vs rw =
         Ok (rw\<lparr>ir := Block b a (map (substOp (substitute (getResults x) vs)) (pre @ post))\<rparr>)"
proof -
  let ?s = "substOp (substitute (getResults x) vs)"
  have look: "lookupOp (ir rw) (op_id x) = Some x"
    using root ids(1) by (simp add: lookupOp_at)
  have seq: "replaceValues (getResults x) vs = substitute (getResults x) vs"
    using fresh by (intro ext replaceValues_substitute) auto
  have "map_block id (removeOp (op_id x)) (Block b a (map ?s pre @ ?s x # map ?s post)) =
        Block b a (map ?s pre @ map ?s post)"
    by (rule eraseOp_at) (simp_all add: ids)
  then have "map_block id (removeOp (op_id x)) (substBlock (substitute (getResults x) vs) (ir rw)) =
        Block b a (map ?s (pre @ post))"
    by (simp add: root)
  then show ?thesis
    using look len by (simp add: replaceOp_def replaceAllUsesWith_range_ir eraseOp_def seq)
qed

text \<open>
  The first two branches of the pattern: when the lower and the upper bound are the same
  SSA value, or \<open>computeConstDiff\<close> answers a difference that is zero or negative, every
  use of result \<open>k\<close> of the loop holds init operand \<open>k\<close> afterwards, and the loop is
  erased from its block.
\<close>

theorem SimplifyTrivialLoops_zero_trip:
  assumes root: "ir rw = Block b a (pre @ Op i scf_for (lb # ub # step # inits) (length inits) rs # post)"
      and ids: "i \<notin> op_ids pre" "i \<notin> op_ids post"
      and ssa: "\<forall>k. OpResult i k \<notin> set inits"
      and zero: "lb = ub \<or> (\<exists>d. computeConstDiff (ir rw) lb ub = Ok (Some d) \<and> d \<le> 0)"
  shows "SimplifyTrivialLoops rw i =
         success (rw\<lparr>ir := Block b a
            (map (substOp (substitute (map (OpResult i) [0..<length inits]) inits)) (pre @ post))\<rparr>)"
proof -
  let ?x = "Op i scf_for (lb # ub # step # inits) (length inits) rs"
  have look: "lookupOp (ir rw) i = Some ?x"
    using root ids(1) lookupOp_at[of ?x pre b a post] by simp
  have "set inits \<inter> set (getResults ?x) = {}"
    using ssa by (auto simp: getResults_def)
  then have rep: "replaceOp i inits rw =
      Ok (rw\<lparr>ir := Block b a (map (substOp (substitute (getResults ?x) inits)) (pre @ post))\<rparr>)"
    using replaceOp_at[of rw b a pre ?x post inits] root ids by simp
  show ?thesis
    using zero look rep
    by (auto simp: SimplifyTrivialLoops_def succeed_def getResults_def)
qed


subsection \<open>Inlining a block\<close>

lemma find_block_skip:
  assumes "c \<notin> block_id ` set xs"
  shows "find (\<lambda>z. block_id z = c) (xs @ rest) = find (\<lambda>z. block_id z = c) rest"
  using assms by (intro find_skip) auto

lemma lookupBlock_at:
  assumes "c \<noteq> b" "c \<notin> block_ids pre" "c \<notin> block_id ` set (blocks_of_regions rs1)"
  shows "lookupBlock (Block b a (pre @ Op i n os k (rs1 @ (Block c m body # r) # rs2) # post)) c =
         Some (Block c m body)"
proof -
  have "lookupBlock (Block b a (pre @ Op i n os k (rs1 @ (Block c m body # r) # rs2) # post)) c =
        find (\<lambda>z. block_id z = c)
          (blocks_of_list pre @ blocks_of_regions rs1 @
             Block c m body # blocks_of_list body @ concat (map blocks_of_block r) @
             blocks_of_regions rs2 @ blocks_of_list post)"
    unfolding lookupBlock_def blocks_of_block_Block blocks_of_list_simps blocks_of_op_Op
      blocks_of_regions_simps
    using assms(1) by (simp add: blocks_of_list_def)
  also have "\<dots> = Some (Block c m body)"
    using assms(2,3) by (simp add: find_block_skip block_ids_list)
  finally show ?thesis .
qed

lemma distinct_getArguments [simp]: "distinct (getArguments y)"
  by (simp add: getArguments_def distinct_map inj_on_def)

lemma ops_of_regions_subst:
  "ops_of_regions (map (map (substBlock s)) rs) = map (substOp s) (ops_of_regions rs)"
  by (simp add: ops_of_regions_def map_concat o_def ops_of_subst_aux)

lemma blocks_of_regions_subst:
  "blocks_of_regions (map (map (substBlock s)) rs) = map (substBlock s) (blocks_of_regions rs)"
  by (simp add: blocks_of_regions_def map_concat o_def blocks_of_subst_aux)

lemma blocks_of_list_subst:
  "blocks_of_list (map (substOp s) xs) = map (substBlock s) (blocks_of_list xs)"
  by (simp add: blocks_of_list_def map_concat o_def blocks_of_subst_aux)

lemma image_id_subst [simp]:
  "op_id ` substOp s ` A = op_id ` A" "block_id ` substBlock s ` A' = block_id ` A'"
  by (simp_all add: image_image)

lemma inlineBlockBefore_at:
  assumes root: "ir rw = Block b a (pre @ Op i n os k (rs1 @ [Block c m body] # rs2) # post)"
      and ops: "distinct (map op_id (ops_of_block (ir rw)))"
      and blocks: "distinct (map block_id (blocks_of_block (ir rw)))"
      and len: "length args = m"
      and fresh: "set args \<inter> set (getArguments (Block c m body)) = {}"
  shows "inlineBlockBefore c i args rw =
         Ok (rw\<lparr>ir := Block b a
               (map (substOp (substitute (getArguments (Block c m body)) args))
                  (pre @ body @ Op i n os k (rs1 @ [] # rs2) # post))\<rparr>)"
proof -
  let ?s = "substitute (getArguments (Block c m body)) args"
  let ?S = "substOp ?s"
  let ?B = "map (map (substBlock ?s))"
  have seq: "replaceValues (getArguments (Block c m body)) args = ?s"
    using fresh by (intro ext replaceValues_substitute) auto
  have ids: "i \<notin> op_ids pre" "i \<notin> op_ids post"
       "i \<notin> op_id ` set (ops_of_regions rs1)" "i \<notin> op_id ` set (ops_of_regions rs2)"
    using ops unfolding root ops_of_block_Block ops_of_list_append ops_of_list_Cons ops_of_op_Op
      ops_of_regions_simps op_ids_list
    by auto
  have bids: "c \<noteq> b" "c \<notin> block_ids pre" "c \<notin> block_ids post"
       "c \<notin> block_id ` set (blocks_of_regions rs1)" "c \<notin> block_id ` set (blocks_of_regions rs2)"
       "c \<notin> block_id ` set (blocks_of_list body)"
    using blocks unfolding root blocks_of_block_Block blocks_of_list_simps blocks_of_op_Op
      blocks_of_regions_simps block_ids_list
    by (auto simp: blocks_of_list_def)
  have look: "lookupBlock (ir rw) c = Some (Block c m body)"
    unfolding root using bids by (intro lookupBlock_at) auto
  have look1: "lookupBlock (substBlock ?s (ir rw)) c = Some (Block c m (map ?S body))"
    by (simp add: lookupBlock_subst look)
  have sub: "substBlock ?s (ir rw) =
        Block b a (map ?S pre @ Op i n (map ?s os) k (?B rs1 @ [Block c m (map ?S body)] # ?B rs2) # map ?S post)"
    by (simp add: root)
  have er: "map_block (removeBlock c) id (substBlock ?s (ir rw)) =
        Block b a (map ?S pre @ Op i n (map ?s os) k (?B rs1 @ [] # ?B rs2) # map ?S post)"
    unfolding sub using bids
    by (intro eraseBlock_at) (simp_all add: blocks_of_regions_subst blocks_of_list_subst)
  have "i \<notin> op_id ` set (tl (ops_of_op (Op i n (map ?s os) k (?B rs1 @ [] # ?B rs2))))"
    using ids(3,4) by (simp add: ops_of_regions_subst image_Un)
  then have sp: "map_block id (spliceBefore i (map ?S body))
          (Block b a (map ?S pre @ Op i n (map ?s os) k (?B rs1 @ [] # ?B rs2) # map ?S post)) =
        Block b a (map ?S pre @ map ?S body @ Op i n (map ?s os) k (?B rs1 @ [] # ?B rs2) # map ?S post)"
    using ids(1,2) by (intro spliceBefore_at) simp_all
  show ?thesis
    using look len look1 er sp
    by (simp add: inlineBlockBefore_def inlineBlock_def replaceAllUsesWith_range_ir seq
        eraseBlock_def insertOps_def)
qed


lemma replaceOpWithRegion_at:
  assumes root: "ir rw = Block b a (pre @ Op i n os k (rs1 @ [Block c m (body @ [T])] # rs2) # post)"
      and ops: "distinct (map op_id (ops_of_block (ir rw)))"
      and blocks: "distinct (map block_id (blocks_of_block (ir rw)))"
      and tm: "isTerminator (op_name T)"
      and len: "length args = m" "length (getOperands T) = k"
      and fresh: "set args \<inter> set (getArguments (Block c m (body @ [T]))) = {}"
      and ssa: "\<forall>j. OpResult i j \<notin>
                  set (map (substitute (getArguments (Block c m (body @ [T]))) args) (getOperands T))"
  shows "replaceOpWithRegion i (length rs1) args rw =
         Ok (rw\<lparr>ir := Block b a
               (map (substOp (substitute (map (OpResult i) [0..<k])
                                (map (substitute (getArguments (Block c m (body @ [T]))) args) (getOperands T))
                              \<circ> substitute (getArguments (Block c m (body @ [T]))) args))
                  (pre @ body @ post))\<rparr>)"
proof -
  let ?blk = "Block c m (body @ [T])"
  let ?x = "Op i n os k (rs1 @ [?blk] # rs2)"
  let ?s = "substitute (getArguments ?blk) args"
  let ?S = "substOp ?s"
  let ?ys = "map ?s (getOperands T)"
  let ?x1 = "?S (Op i n os k (rs1 @ [] # rs2))"
  let ?r = "substitute (map (OpResult i) [0..<k]) ?ys"
  let ?R = "substOp ?r"
  have ids: "i \<notin> op_ids pre" "i \<notin> op_ids post" "i \<notin> op_ids body" "i \<noteq> op_id T"
       "op_id T \<notin> op_ids pre" "op_id T \<notin> op_ids post" "op_id T \<notin> op_ids body"
    using ops self_in_ops_of_op[of T] unfolding root op_ids_list
    by (auto simp del: self_in_ops_of_op)
  have look: "lookupOp (ir rw) i = Some ?x"
    using root ids(1) lookupOp_at[of ?x pre b a post] by simp
  have gt: "getTerminator ?blk = Ok T"
    using tm by (simp add: getTerminator_def)
  define rw1 where "rw1 = rw\<lparr>ir := Block b a (map ?S (pre @ (body @ [T]) @ Op i n os k (rs1 @ [] # rs2) # post))\<rparr>"
  have inl: "inlineBlockBefore c i args rw = Ok rw1"
    unfolding rw1_def using root ops blocks len(1) fresh by (rule inlineBlockBefore_at)
  have root1: "ir rw1 = Block b a ((map ?S pre @ map ?S body) @ ?S T # ?x1 # map ?S post)"
    by (simp add: rw1_def)
  have lookT: "lookupOp (ir rw1) (op_id T) = Some (?S T)"
    unfolding root1 using lookupOp_at[of "?S T" "map ?S pre @ map ?S body" b a "?x1 # map ?S post"] ids
    by simp
  have root1': "ir rw1 = Block b a ((map ?S pre @ map ?S body @ [?S T]) @ ?x1 # map ?S post)"
    by (simp add: rw1_def)
  have idT: "op_ids [?S T] = op_ids [T]"
    using op_ids_subst[of ?s "[T]"] by simp
  have "i \<notin> op_ids [T]"
    using ops unfolding root op_ids_list by auto
  then have pre_ok: "op_id ?x1 \<notin> op_ids (map ?S pre @ map ?S body @ [?S T])"
    using ids idT by simp
  have res: "getResults ?x1 = map (OpResult i) [0..<k]"
    by (simp add: getResults_def)
  have "set ?ys \<inter> range (OpResult i) = {}"
    using ssa by blast
  then have "set ?ys \<inter> set (getResults ?x1) = {}"
    unfolding res by auto
  then have "replaceOp (op_id ?x1) ?ys rw1 =
        Ok (rw1\<lparr>ir := Block b a (map (substOp (substitute (getResults ?x1) ?ys))
                                  ((map ?S pre @ map ?S body @ [?S T]) @ map ?S post))\<rparr>)"
    using ids len(2) by (intro replaceOp_at[OF root1' pre_ok]) simp_all
  then have rep: "replaceOp i ?ys rw1 =
        Ok (rw1\<lparr>ir := Block b a (map ?R ((map ?S pre @ map ?S body @ [?S T]) @ map ?S post))\<rparr>)"
    unfolding res by simp
  define rw2 where "rw2 = rw1\<lparr>ir := Block b a (map ?R ((map ?S pre @ map ?S body @ [?S T]) @ map ?S post))\<rparr>"
  have root2: "ir rw2 = Block b a ((map ?R (map ?S pre) @ map ?R (map ?S body)) @ ?R (?S T) # map ?R (map ?S post))"
    by (simp add: rw2_def)
  have "map_block id (removeOp (op_id T)) (ir rw2) =
        Block b a ((map ?R (map ?S pre) @ map ?R (map ?S body)) @ map ?R (map ?S post))"
    unfolding root2 using ids by (intro eraseOp_at) (simp_all del: map_map)
  then have er: "eraseOp (op_id T) rw2 =
        rw\<lparr>ir := Block b a (map (substOp (?r \<circ> ?s)) (pre @ body @ post))\<rparr>"
    by (simp add: eraseOp_def rw2_def rw1_def substOp_substOp o_def)
  have "replaceOpWithRegion i (length rs1) args rw =
          bindA (getTerminator ?blk) (\<lambda>terminator.
          bindA (inlineBlockBefore c i args rw) (\<lambda>rw1.
            (case lookupOp (ir rw1) (op_id terminator) of
               None \<Rightarrow> AssertFail
             | Some terminator1 \<Rightarrow>
                 bindA (replaceOp i (getOperands terminator1) rw1) (\<lambda>rw2.
                 Ok (eraseOp (op_id terminator) rw2)))))"
    unfolding replaceOpWithRegion_def look by simp
  also have "\<dots> = bindA (replaceOp i ?ys rw1) (\<lambda>rw2. Ok (eraseOp (op_id T) rw2))"
    unfolding gt inl by (simp add: bindA_def lookT)
  also have "\<dots> = Ok (eraseOp (op_id T) rw2)"
    unfolding rep rw2_def by (simp add: bindA_def)
  finally show ?thesis
    unfolding er .
qed


lemma substitute_range: "substitute olds news v = v \<or> substitute olds news v \<in> set news"
proof (cases "map_of (zip olds news) v")
  case None
  then show ?thesis by (simp add: substitute_def)
next
  case (Some t)
  then have "t \<in> set news"
    by (meson in_set_zipE map_of_SomeD)
  then show ?thesis using Some by (simp add: substitute_def)
qed

section \<open>The claims about scf.for\<close>

lemmas eval_defs = c64_def lookupOp_def getDefiningOp_def m_ConstantInt_def m_AddI_def
  computeConstDiff_def APInt_sub_def getSExtValue_def APInt_signed_def APInt_unsigned_def
  APInt_sge_def bindA_def op_ids_def ops_of_list_def

text \<open>The loop \<open>for i = 3 to 3 step 1 iter(x = 5) { yield x }\<close> rewrites to the value 5.\<close>

theorem SimplifyTrivialLoops_zero_trip_witness:
  "SimplifyTrivialLoops trivial_for_example 4 =
     success \<lparr>ir = Block 0 0 [c64 0 3, c64 1 3, c64 2 1, c64 3 5,
                               Op 6 (other_op ''use'') [OpResult 3 0] 0 []],
              nextId = 7, ip = InsertBefore 4\<rparr>"
proof -
  let ?pre = "[c64 0 3, c64 1 3, c64 2 1, c64 3 5]"
  let ?post = "[Op 6 (other_op ''use'') [OpResult 4 0] 0 []]"
  let ?rs = "[[Block 1 2 [Op 5 scf_yield [BlockArgument 1 1] 0 []]]]"
  have root: "ir trivial_for_example =
      Block 0 0 (?pre @ Op 4 scf_for (OpResult 0 0 # OpResult 1 0 # OpResult 2 0 # [OpResult 3 0])
                   (length [OpResult 3 0]) ?rs # ?post)"
    by (simp add: trivial_for_example_def)
  have ids: "4 \<notin> op_ids ?pre" "4 \<notin> op_ids ?post"
    by (simp_all add: eval_defs)
  have ssa: "\<forall>k. OpResult 4 k \<notin> set [OpResult 3 0]"
    by simp
  have zero: "OpResult 0 0 = OpResult 1 0 \<or>
      (\<exists>d. computeConstDiff (ir trivial_for_example) (OpResult 0 0) (OpResult 1 0) = Ok (Some d) \<and> d \<le> 0)"
    by (simp add: trivial_for_example_def eval_defs)
  show ?thesis
    using SimplifyTrivialLoops_zero_trip[OF root ids ssa zero]
    by (simp add: trivial_for_example_def c64_def substitute_def)
qed

text \<open>
  C3: the difference of the constant bounds is computed modulo \<open>2 ^ width\<close>. For the
  bounds \<open>-1\<close> and \<open>2 ^ 63 - 1\<close> the difference \<open>2 ^ 63\<close> is returned as \<open>- 2 ^ 63\<close>, and
  the loop, which iterates, is erased as a loop of no iterations.
\<close>

theorem computeConstDiff_wraps:
  "computeConstDiff (ir wrapped_for_example) (OpResult 0 0) (OpResult 1 0) = Ok (Some (- 9223372036854775808))
   \<and> APInt_signed (APInt 64 9223372036854775807) - APInt_signed (APInt 64 18446744073709551615) = 9223372036854775808
   \<and> SimplifyTrivialLoops wrapped_for_example 4 =
       success \<lparr>ir = Block 0 0 [c64 0 18446744073709551615, c64 1 9223372036854775807, c64 2 1, c64 3 5,
                               Op 6 (other_op ''use'') [OpResult 3 0] 0 []],
              nextId = 8, ip = InsertBefore 4\<rparr>"
  by (simp add: wrapped_for_example_def eval_defs SimplifyTrivialLoops_def replaceOp_def succeed_def
      getResults_def replaceAllUsesWith_def eraseOp_def removeOp_def substBlock_def setOperands_def replaceValue_def)


text \<open>
  The last branch of the pattern: when \<open>computeConstDiff\<close> answers a positive difference,
  the constant step is signed-less-than that answer, the body block holds only its
  terminator and the yielded values are all defined outside the loop, every use of
  result \<open>k\<close> holds the yielded value \<open>k\<close> afterwards, and the loop is erased.
\<close>

theorem SimplifyTrivialLoops_empty_body:
  assumes root: "ir rw = Block b a (pre @ Op i scf_for (lb # ub # step # inits) (length ys)
                                       [[Block c m [Op t scf_yield ys k yrs]]] # post)"
      and ids: "i \<notin> op_ids pre" "i \<notin> op_ids post"
      and ssa: "\<forall>j. OpResult i j \<notin> set ys"
      and diff: "lb \<noteq> ub" "computeConstDiff (ir rw) lb ub = Ok (Some d)" "0 < d"
      and step: "m_ConstantInt (ir rw) step = Some s" "APInt_signed s < d"
      and outside: "\<forall>v \<in> set ys. isDefinedOutsideOfLoop
              (Op i scf_for (lb # ub # step # inits) (length ys) [[Block c m [Op t scf_yield ys k yrs]]]) v"
  shows "SimplifyTrivialLoops rw i =
         success (rw\<lparr>ir := Block b a
            (map (substOp (substitute (map (OpResult i) [0..<length ys]) ys)) (pre @ post))\<rparr>)"
proof -
  let ?x = "Op i scf_for (lb # ub # step # inits) (length ys) [[Block c m [Op t scf_yield ys k yrs]]]"
  have look: "lookupOp (ir rw) i = Some ?x"
    using root ids(1) lookupOp_at[of ?x pre b a post] by simp
  have "set ys \<inter> set (getResults ?x) = {}"
    using ssa by (auto simp: getResults_def)
  then have rep: "replaceOp i ys rw =
      Ok (rw\<lparr>ir := Block b a (map (substOp (substitute (getResults ?x) ys)) (pre @ post))\<rparr>)"
    using replaceOp_at[of rw b a pre ?x post ys] root ids by simp
  have tm: "getTerminator (Block c m [Op t scf_yield ys k yrs]) = Ok (Op t scf_yield ys k yrs)"
    by (simp add: getTerminator_def isTerminator_def)
  show ?thesis
    using diff step outside look rep tm
    by (simp add: SimplifyTrivialLoops_def succeed_def getResults_def APInt_sge_def)
qed

theorem SimplifyTrivialLoops_empty_body_witness:
  "SimplifyTrivialLoops empty_for_example 4 =
     success \<lparr>ir = Block 0 0 [c64 0 0, c64 1 10, c64 2 1, c64 3 5, c64 7 9,
                               Op 6 (other_op ''use'') [OpResult 7 0] 0 []],
              nextId = 8, ip = InsertBefore 4\<rparr>"
proof -
  let ?pre = "[c64 0 0, c64 1 10, c64 2 1, c64 3 5, c64 7 9]"
  let ?post = "[Op 6 (other_op ''use'') [OpResult 4 0] 0 []]"
  let ?x = "Op 4 scf_for (OpResult 0 0 # OpResult 1 0 # OpResult 2 0 # [OpResult 3 0])
                   (length [OpResult 7 0]) [[Block 1 2 [Op 5 scf_yield [OpResult 7 0] 0 []]]]"
  have root: "ir empty_for_example = Block 0 0 (?pre @ ?x # ?post)"
    by (simp add: empty_for_example_def)
  have ids: "4 \<notin> op_ids ?pre" "4 \<notin> op_ids ?post"
    by (simp_all add: eval_defs)
  have ssa: "\<forall>j. OpResult 4 j \<notin> set [OpResult 7 0]"
    by simp
  have diff: "OpResult 0 0 \<noteq> OpResult 1 0"
     "computeConstDiff (ir empty_for_example) (OpResult 0 0) (OpResult 1 0) = Ok (Some 10)" "(0::int) < 10"
    by (simp_all add: empty_for_example_def eval_defs)
  have step: "m_ConstantInt (ir empty_for_example) (OpResult 2 0) = Some (APInt 64 1)"
     "APInt_signed (APInt 64 1) < 10"
    by (simp_all add: empty_for_example_def eval_defs)
  have outside: "\<forall>v \<in> set [OpResult 7 0]. isDefinedOutsideOfLoop ?x v"
    by (simp add: isDefinedOutsideOfLoop_def)
  show ?thesis
    using SimplifyTrivialLoops_empty_body[OF root ids ssa diff step outside]
    by (simp add: empty_for_example_def c64_def substitute_def)
qed


text \<open>
  The third branch of the pattern: when \<open>computeConstDiff\<close> answers a positive difference
  \<open>d\<close> and the constant step is signed-greater-or-equal to \<open>d\<close>, the operations of the
  body, the terminator apart, stand in the parent block where the loop stood, with the
  induction variable replaced by the lower bound and each iteration argument by its init
  value; every use of result \<open>k\<close> of the loop holds operand \<open>k\<close> of the terminator (after
  that replacement); the loop and the terminator are gone.
\<close>

theorem SimplifyTrivialLoops_single_iteration:
  assumes root: "ir rw = Block b a (pre @ Op i scf_for (lb # ub # step # inits) k
                                       [[Block c (Suc (length inits)) (body @ [T])]] # post)"
      and ops: "distinct (map op_id (ops_of_block (ir rw)))"
      and blocks: "distinct (map block_id (blocks_of_block (ir rw)))"
      and tm: "isTerminator (op_name T)" "length (getOperands T) = k"
      and ssa: "\<forall>j. BlockArgument c j \<notin> set (lb # inits)"
               "\<forall>j. OpResult i j \<notin> set (lb # inits) \<union> set (getOperands T)"
      and diff: "lb \<noteq> ub" "computeConstDiff (ir rw) lb ub = Ok (Some d)" "0 < d"
      and step: "m_ConstantInt (ir rw) step = Some s" "d \<le> APInt_signed s"
  shows "SimplifyTrivialLoops rw i =
         success (rw\<lparr>ir := Block b a
            (map (substOp
                   (substitute (map (OpResult i) [0..<k])
                      (map (substitute (map (BlockArgument c) [0..<Suc (length inits)]) (lb # inits))
                           (getOperands T))
                    \<circ> substitute (map (BlockArgument c) [0..<Suc (length inits)]) (lb # inits)))
               (pre @ body @ post))\<rparr>)"
proof -
  let ?blk = "Block c (Suc (length inits)) (body @ [T])"
  let ?x = "Op i scf_for (lb # ub # step # inits) k [[?blk]]"
  let ?s = "substitute (getArguments ?blk) (lb # inits)"
  have root': "ir rw = Block b a (pre @ Op i scf_for (lb # ub # step # inits) k ([] @ [?blk] # []) # post)"
    using root by simp
  have "i \<notin> op_ids pre"
    using ops unfolding root op_ids_list by auto
  then have look: "lookupOp (ir rw) i = Some ?x"
    using root lookupOp_at[of ?x pre b a post] by simp
  have fresh: "set (lb # inits) \<inter> set (getArguments ?blk) = {}"
    using ssa(1) by (auto simp: getArguments_def)
  have res: "\<forall>j. OpResult i j \<notin> set (map ?s (getOperands T))"
  proof (intro allI notI)
    fix j assume "OpResult i j \<in> set (map ?s (getOperands T))"
    then obtain v where v: "v \<in> set (getOperands T)" "?s v = OpResult i j"
      by auto
    then show False
      using substitute_range[of "getArguments ?blk" "lb # inits" v] ssa(2) by auto
  qed
  have "replaceOpWithRegion i (length ([]::block list list)) (lb # inits) rw =
        Ok (rw\<lparr>ir := Block b a
              (map (substOp (substitute (map (OpResult i) [0..<k]) (map ?s (getOperands T)) \<circ> ?s))
                 (pre @ body @ post))\<rparr>)"
    using root' ops blocks tm(1) _ tm(2) fresh res by (rule replaceOpWithRegion_at) simp
  then have rep: "replaceOpWithRegion i 0 (lb # inits) rw =
        Ok (rw\<lparr>ir := Block b a
              (map (substOp (substitute (map (OpResult i) [0..<k]) (map ?s (getOperands T)) \<circ> ?s))
                 (pre @ body @ post))\<rparr>)"
    by simp
  show ?thesis
    using diff step look
    by (simp add: SimplifyTrivialLoops_def rep succeed_def APInt_sge_def getArguments_def)
qed

theorem SimplifyTrivialLoops_single_iteration_witness:
  "SimplifyTrivialLoops single_for_example 3 =
     success \<lparr>ir = Block 0 0 [c64 0 0, c64 1 1, c64 2 7,
                               Op 4 arith_addi [OpResult 0 0, OpResult 2 0] 1 [],
                               Op 6 (other_op ''use'') [OpResult 4 0] 0 []],
              nextId = 7, ip = InsertBefore 3\<rparr>"
proof -
  let ?pre = "[c64 0 0, c64 1 1, c64 2 7]"
  let ?body = "[Op 4 arith_addi [BlockArgument 1 0, BlockArgument 1 1] 1 []]"
  let ?T = "Op 5 scf_yield [OpResult 4 0] 0 []"
  let ?post = "[Op 6 (other_op ''use'') [OpResult 3 0] 0 []]"
  have root: "ir single_for_example =
      Block 0 0 (?pre @ Op 3 scf_for (OpResult 0 0 # OpResult 1 0 # OpResult 1 0 # [OpResult 2 0]) 1
                   [[Block 1 (Suc (length [OpResult 2 0])) (?body @ [?T])]] # ?post)"
    by (simp add: single_for_example_def)
  have ops: "distinct (map op_id (ops_of_block (ir single_for_example)))"
    by (simp add: single_for_example_def c64_def ops_of_list_def)
  have blocks: "distinct (map block_id (blocks_of_block (ir single_for_example)))"
    by (simp add: single_for_example_def c64_def blocks_of_list_def)
  have tm: "isTerminator (op_name ?T)" "length (getOperands ?T) = 1"
    by (simp_all add: isTerminator_def)
  have ssa: "\<forall>j. BlockArgument 1 j \<notin> set (OpResult 0 0 # [OpResult 2 0])"
     "\<forall>j. OpResult 3 j \<notin> set (OpResult 0 0 # [OpResult 2 0]) \<union> set (getOperands ?T)"
    by simp_all
  have diff: "OpResult 0 0 \<noteq> OpResult 1 0"
     "computeConstDiff (ir single_for_example) (OpResult 0 0) (OpResult 1 0) = Ok (Some 1)" "(0::int) < 1"
    by (simp_all add: single_for_example_def eval_defs)
  have step: "m_ConstantInt (ir single_for_example) (OpResult 1 0) = Some (APInt 64 1)"
     "1 \<le> APInt_signed (APInt 64 1)"
    by (simp_all add: single_for_example_def eval_defs)
  show ?thesis
    using SimplifyTrivialLoops_single_iteration[OF root ops blocks tm ssa diff step]
    by (simp add: single_for_example_def c64_def substitute_def)
qed

section \<open>The claim about scf.index_switch\<close>

lemma findCase_first:
  "idx < length cases \<Longrightarrow> cases ! idx = cst \<Longrightarrow> cst \<notin> set (take idx cases) \<Longrightarrow>
   findCase cst cases = idx"
proof (induction cases arbitrary: idx)
  case Nil
  then show ?case by simp
next
  case (Cons c cs)
  then show ?case by (cases idx) auto
qed

lemma findCase_none: "cst \<notin> set cases \<Longrightarrow> findCase cst cases = length cases"
  by (induction cases) auto

lemma substitute_Nil [simp]: "substitute [] [] = (\<lambda>v. v)"
  by (rule ext) (simp add: substitute_def)

lemma map_substOp_ident [simp]: "map (substOp (\<lambda>v. v)) xs = xs"
  by (simp add: map_idI subst_ident_aux)

text \<open>
  C5: for every scf.index_switch whose argument is a constant integer, the pattern
  succeeds: the operations of the region selected by the constant, the terminator apart,
  stand in the parent block where the operation stood; every use of result \<open>k\<close> holds
  operand \<open>k\<close> of that region's terminator; the operation and the terminator are gone. The
  region selected is the one of the first case value equal to the constant, the default
  region (region 0) when no case value is equal.
\<close>

theorem FoldConstantCase_inlines_selected_region:
  assumes root: "ir rw = Block b a (pre @ Op i (scf_index_switch cases) [arg] k
                                       (rs1 @ [Block c 0 (body @ [T])] # rs2) # post)"
      and ops: "distinct (map op_id (ops_of_block (ir rw)))"
      and blocks: "distinct (map block_id (blocks_of_block (ir rw)))"
      and const: "getConstantIntValue (ir rw) arg = Ok (Some cst)"
      and sel: "(cst \<notin> set cases \<and> rs1 = []) \<or>
                (\<exists>idx. idx < length cases \<and> cases ! idx = cst \<and> cst \<notin> set (take idx cases) \<and>
                       length rs1 = Suc idx)"
      and tm: "isTerminator (op_name T)" "length (getOperands T) = k"
      and ssa: "\<forall>j. OpResult i j \<notin> set (getOperands T)"
  shows "FoldConstantCase rw i =
         success (rw\<lparr>ir := Block b a
            (map (substOp (substitute (map (OpResult i) [0..<k]) (getOperands T)))
               (pre @ body @ post))\<rparr>)"
proof -
  let ?blk = "Block c 0 (body @ [T])"
  let ?rs = "rs1 @ [?blk] # rs2"
  let ?x = "Op i (scf_index_switch cases) [arg] k ?rs"
  let ?x1 = "Op i (scf_index_switch cases) [arg] k (rs1 @ [] # rs2)"
  let ?ys = "getOperands T"
  have ids: "i \<notin> op_ids pre" "i \<notin> op_ids post" "i \<notin> op_ids body" "i \<noteq> op_id T"
       "op_id T \<notin> op_ids pre" "op_id T \<notin> op_ids post" "op_id T \<notin> op_ids body"
       "op_id T \<notin> op_id ` set (ops_of_regions rs1)" "op_id T \<notin> op_id ` set (ops_of_regions rs2)"
    using ops self_in_ops_of_op[of T] unfolding root op_ids_list
    by (auto simp del: self_in_ops_of_op)
  have look: "lookupOp (ir rw) i = Some ?x"
    using root ids(1) lookupOp_at[of ?x pre b a post] by simp
  have idx: "(if findCase cst cases < length cases then Suc (findCase cst cases) else 0) = length rs1"
    using sel findCase_first findCase_none by auto
  have gt: "getTerminator ?blk = Ok T"
    using tm by (simp add: getTerminator_def)
  define rw1 where "rw1 = rw\<lparr>ir := Block b a ((pre @ body) @ T # ?x1 # post)\<rparr>"
  have "inlineBlockBefore c i [] rw =
        Ok (rw\<lparr>ir := Block b a (map (substOp (substitute (getArguments ?blk) []))
                (pre @ (body @ [T]) @ ?x1 # post))\<rparr>)"
    using root ops blocks by (rule inlineBlockBefore_at) (simp_all add: getArguments_def)
  then have inl: "inlineBlockBefore c i [] rw = Ok rw1"
    by (simp add: rw1_def getArguments_def subst_ident_aux map_idI)
  define rw2 where "rw2 = rw\<lparr>ir := Block b a ((pre @ body) @ ?x1 # post)\<rparr>"
  have "op_id T \<notin> op_ids (?x1 # post)"
    using ids by (simp add: op_ids_Cons image_Un)
  then have "map_block id (removeOp (op_id T)) (Block b a ((pre @ body) @ T # ?x1 # post)) =
        Block b a ((pre @ body) @ ?x1 # post)"
    using ids by (intro eraseOp_at) simp_all
  then have er: "eraseOp (op_id T) rw1 = rw2"
    by (simp add: eraseOp_def rw1_def rw2_def)
  have root2: "ir rw2 = Block b a ((pre @ body) @ ?x1 # post)"
    by (simp add: rw2_def)
  have "set ?ys \<inter> set (getResults ?x1) = {}"
    using ssa by (auto simp: getResults_def)
  then have "replaceOp (op_id ?x1) ?ys rw2 =
        Ok (rw2\<lparr>ir := Block b a (map (substOp (substitute (getResults ?x1) ?ys)) ((pre @ body) @ post))\<rparr>)"
    using ids tm(2) by (intro replaceOp_at[OF root2]) simp_all
  then have rep: "replaceOp i ?ys rw2 =
        Ok (rw\<lparr>ir := Block b a (map (substOp (substitute (map (OpResult i) [0..<k]) ?ys)) (pre @ body @ post))\<rparr>)"
    by (simp add: getResults_def rw2_def)
  show ?thesis
    using look const idx gt inl er rep
    by (simp add: FoldConstantCase_def Let_def succeed_def bindA_def)
qed


theorem FoldConstantCase_inlines_selected_region_witness:
  "FoldConstantCase switch_example 1 =
     success \<lparr>ir = Block 0 0 [c64 0 2, c64 6 20, Op 8 (other_op ''use'') [OpResult 6 0] 0 []],
              nextId = 9, ip = InsertBefore 1\<rparr>"
proof -
  let ?pre = "[c64 0 2]"
  let ?rs1 = "[[Block 1 0 [c64 2 0, Op 3 scf_yield [OpResult 2 0] 0 []]],
               [Block 2 0 [c64 4 10, Op 5 scf_yield [OpResult 4 0] 0 []]]]"
  let ?T = "Op 7 scf_yield [OpResult 6 0] 0 []"
  let ?post = "[Op 8 (other_op ''use'') [OpResult 1 0] 0 []]"
  have root: "ir switch_example =
      Block 0 0 (?pre @ Op 1 (scf_index_switch [1, 2]) [OpResult 0 0] 1
                   (?rs1 @ [Block 3 0 ([c64 6 20] @ [?T])] # []) # ?post)"
    by (simp add: switch_example_def)
  have ops: "distinct (map op_id (ops_of_block (ir switch_example)))"
    by (simp add: switch_example_def c64_def ops_of_list_def)
  have blocks: "distinct (map block_id (blocks_of_block (ir switch_example)))"
    by (simp add: switch_example_def c64_def blocks_of_list_def)
  have const: "getConstantIntValue (ir switch_example) (OpResult 0 0) = Ok (Some 2)"
    by (simp add: switch_example_def getConstantIntValue_def eval_defs)
  have sel: "((2::int) \<notin> set [1, 2] \<and> ?rs1 = []) \<or>
             (\<exists>idx. idx < length [1, 2::int] \<and> [1, 2::int] ! idx = 2 \<and> 2 \<notin> set (take idx [1, 2::int]) \<and>
                    length ?rs1 = Suc idx)"
    by (intro disjI2 exI[of _ 1]) simp
  have tm: "isTerminator (op_name ?T)" "length (getOperands ?T) = 1"
    by (simp_all add: isTerminator_def)
  have ssa: "\<forall>j. OpResult 1 j \<notin> set (getOperands ?T)"
    by simp
  show ?thesis
    using FoldConstantCase_inlines_selected_region[OF root ops blocks const sel tm ssa]
    by (simp add: switch_example_def c64_def substitute_def)
qed

section \<open>The claim about successor regions\<close>

text \<open>
  C6, as stated, fails for scf.forall and scf.while: from its body scf.forall reports the
  parent only, and scf.while has no region that is reachable from the parent and from
  itself and that reaches the results.
\<close>

theorem loop_back_edge_counterexample:
  "\<not> loop_edges ForallOp_getSuccessorRegions forall_example 0
   \<and> \<not> loop_edges WhileOp_getSuccessorRegions while_example 0
   \<and> \<not> loop_edges WhileOp_getSuccessorRegions while_example 1"
  by (simp add: loop_edges_def reaches_region_def reaches_results_def reaches_def
      ForallOp_getSuccessorRegions_def WhileOp_getSuccessorRegions_def forall_example_def while_example_def
      getResults_def Region_getArguments_def)

text \<open>
  C6, amended: scf.for reports, from every point, its body region with the iteration
  arguments and the results of the parent. scf.forall reports its body from the parent,
  and from the body the parent with no values. scf.while reports the before region from
  the parent and from the after region, and the results of the parent and the after
  region from the before region.
\<close>

theorem getSuccessorRegions_edges:
  "(getRegions x = [[body]] \<longrightarrow>
      loop_edges ForOp_getSuccessorRegions x 0 \<and>
      ForOp_getSuccessorRegions x point = Ok [toRegion 0 (drop 1 (getArguments body)), toParent (getResults x)])
   \<and> ForallOp_getSuccessorRegions y parent = Ok [toRegion 0 []]
   \<and> ForallOp_getSuccessorRegions y (fromRegion r) = Ok [toParent []]
   \<and> (getRegions w = [before, after] \<longrightarrow>
        WhileOp_getSuccessorRegions w parent = Ok [toRegion 0 (Region_getArguments before)]
      \<and> WhileOp_getSuccessorRegions w (fromRegion 0) =
           Ok [toParent (getResults w), toRegion 1 (Region_getArguments after)]
      \<and> WhileOp_getSuccessorRegions w (fromRegion 1) = Ok [toRegion 0 (Region_getArguments before)])"
  by (simp add: loop_edges_def reaches_region_def reaches_results_def reaches_def
      ForOp_getSuccessorRegions_def ForOp_getRegionIterArgs_def bindA_def
      ForallOp_getSuccessorRegions_def WhileOp_getSuccessorRegions_def)

theorem getSuccessorRegions_edges_witness:
  "loop_edges ForOp_getSuccessorRegions
     (Op 4 scf_for [OpResult 0 0, OpResult 1 0, OpResult 2 0, OpResult 3 0] 1
        [[Block 1 2 [Op 5 scf_yield [BlockArgument 1 1] 0 []]]]) 0
   \<and> ForOp_getSuccessorRegions
     (Op 4 scf_for [OpResult 0 0, OpResult 1 0, OpResult 2 0, OpResult 3 0] 1
        [[Block 1 2 [Op 5 scf_yield [BlockArgument 1 1] 0 []]]]) (fromRegion 0) =
       Ok [toRegion 0 [BlockArgument 1 1], toParent [OpResult 4 0]]
   \<and> ForallOp_getSuccessorRegions forall_example parent = Ok [toRegion 0 []]
   \<and> ForallOp_getSuccessorRegions forall_example (fromRegion 0) = Ok [toParent []]
   \<and> WhileOp_getSuccessorRegions while_example parent = Ok [toRegion 0 [BlockArgument 0 0]]
   \<and> WhileOp_getSuccessorRegions while_example (fromRegion 0) =
         Ok [toParent [OpResult 0 0], toRegion 1 [BlockArgument 1 0]]
   \<and> WhileOp_getSuccessorRegions while_example (fromRegion 1) = Ok [toRegion 0 [BlockArgument 0 0]]"
  using getSuccessorRegions_edges
    [of "Op 4 scf_for [OpResult 0 0, OpResult 1 0, OpResult 2 0, OpResult 3 0] 1
           [[Block 1 2 [Op 5 scf_yield [BlockArgument 1 1] 0 []]]]"
        "Block 1 2 [Op 5 scf_yield [BlockArgument 1 1] 0 []]" "fromRegion 0"
        forall_example 0 while_example
        "[Block 0 1 [Op 1 (other_op ''cond'') [BlockArgument 0 0] 1 [],
                     Op 2 scf_condition [OpResult 1 0, BlockArgument 0 0] 0 []]]"
        "[Block 1 1 [Op 3 (other_op ''next'') [BlockArgument 1 0] 1 [],
                     Op 4 scf_yield [OpResult 3 0] 0 []]]"]
  by (simp add: while_example_def getArguments_def getResults_def Region_getArguments_def
      numeral_2_eq_2)

section \<open>The claim about scf.parallel\<close>

lemma succeed_not_failure: "succeed m \<noteq> failure"
  by (cases m) (simp_all add: succeed_def)

lemma bounds_are_operands: "getBounds x \<subseteq> set (getOperands x)"
  by (auto simp: getBounds_def getLowerBound_def getUpperBound_def getStep_def
      split: opname.splits dest: in_set_takeD in_set_dropD)

text \<open>
  C9: for a parallel loop whose body holds one parallel loop and the terminator, the
  pattern returns failure, and so rewrites nothing, exactly when a lower bound, an upper
  bound or a step of the inner loop is an induction variable of the outer loop, or one of
  the loops has initial values (reductions). So it returns failure whenever an inner
  bound is an outer induction variable, and it merges only when no bound of the inner
  loop is an induction variable of the outer loop and neither loop carries reductions;
  the bounds of the outer loop are never induction variables of the inner loop, since
  the operands of the outer loop are defined outside of it.
\<close>

theorem MergeNestedParallelLoops_independent:
  assumes look: "lookupOp (ir rw) i = Some outer"
      and outer: "op_name outer = scf_parallel nl nu ns" "getRegions outer = [[Block c m [inner, T]]]"
      and inner: "op_name inner = scf_parallel nl' nu' ns'" "getRegions inner = [[innerBody]]"
      and dom: "\<forall>v \<in> set (getOperands outer). isDefinedOutsideOfLoop outer v"
  shows "(MergeNestedParallelLoops rw i = failure) =
           (set (getArguments (Block c m [inner, T])) \<inter> getBounds inner \<noteq> {} \<or>
            getInitVals outer \<noteq> [] \<or> getInitVals inner \<noteq> [])
         \<and> set (getArguments innerBody) \<inter> getBounds outer = {}"
proof
  have dep: "(\<exists>v \<in> set (getArguments (Block c m [inner, T])).
                v \<in> set (getLowerBound inner) \<or> v \<in> set (getUpperBound inner) \<or> v \<in> set (getStep inner)) =
             (set (getArguments (Block c m [inner, T])) \<inter> getBounds inner \<noteq> {})"
    by (auto simp: getBounds_def)
  show "(MergeNestedParallelLoops rw i = failure) =
           (set (getArguments (Block c m [inner, T])) \<inter> getBounds inner \<noteq> {} \<or>
            getInitVals outer \<noteq> [] \<or> getInitVals inner \<noteq> [])"
    unfolding dep[symmetric] MergeNestedParallelLoops_def
    using look outer inner
    by (simp add: Let_def succeed_not_failure)
  have "block_id innerBody \<in> set (map block_id (blocks_of_op outer))"
    using outer(2) inner(2) by (cases outer; cases inner) (auto simp: blocks_of_list_def)
  then have "\<not> isDefinedOutsideOfLoop outer (BlockArgument (block_id innerBody) k)" for k
    by (simp add: isDefinedOutsideOfLoop_def)
  then have "set (getArguments innerBody) \<inter> set (getOperands outer) = {}"
    using dom by (auto simp: getArguments_def)
  then show "set (getArguments innerBody) \<inter> getBounds outer = {}"
    using bounds_are_operands[of outer] by auto
qed

theorem MergeNestedParallelLoops_independent_witness:
  "MergeNestedParallelLoops dependent_parallel_example 3 = failure
   \<and> BlockArgument 1 0 \<in> set (getLowerBound
        (Op 4 (scf_parallel 1 1 1) [BlockArgument 1 0, OpResult 1 0, OpResult 2 0] 0
           [[Block 2 1 [Op 5 (other_op ''work'') [BlockArgument 1 0, BlockArgument 2 0] 1 [],
                        Op 7 scf_reduce [] 0 []]]]))"
proof -
  let ?inner = "Op 4 (scf_parallel 1 1 1) [BlockArgument 1 0, OpResult 1 0, OpResult 2 0] 0
           [[Block 2 1 [Op 5 (other_op ''work'') [BlockArgument 1 0, BlockArgument 2 0] 1 [],
                        Op 7 scf_reduce [] 0 []]]]"
  let ?T = "Op 8 scf_reduce [] 0 []"
  let ?outer = "Op 3 (scf_parallel 1 1 1) [OpResult 0 0, OpResult 1 0, OpResult 2 0] 0
           [[Block 1 1 [?inner, ?T]]]"
  have look: "lookupOp (ir dependent_parallel_example) 3 = Some ?outer"
    by (simp add: dependent_parallel_example_def eval_defs)
  have outer: "op_name ?outer = scf_parallel 1 1 1" "getRegions ?outer = [[Block 1 1 [?inner, ?T]]]"
    by simp_all
  have inner: "op_name ?inner = scf_parallel 1 1 1"
     "getRegions ?inner = [[Block 2 1 [Op 5 (other_op ''work'') [BlockArgument 1 0, BlockArgument 2 0] 1 [],
                        Op 7 scf_reduce [] 0 []]]]"
    by simp_all
  have dom: "\<forall>v \<in> set (getOperands ?outer). isDefinedOutsideOfLoop ?outer v"
    by (simp add: isDefinedOutsideOfLoop_def ops_of_list_def)
  show ?thesis
    using MergeNestedParallelLoops_independent[OF look outer inner dom]
    by (simp add: getBounds_def getLowerBound_def getArguments_def)
qed

text \<open>The two loops with constant bounds are merged into one loop of two dimensions.\<close>

lemma MergeNestedParallelLoops_example:
  "MergeNestedParallelLoops nested_parallel_example 3 =
     success \<lparr>ir = Block 0 0
         [c64 0 0, c64 1 8, c64 2 1,
          Op 9 (scf_parallel 2 2 2)
           [OpResult 0 0, OpResult 0 0, OpResult 1 0, OpResult 1 0, OpResult 2 0, OpResult 2 0] 0
           [[Block 10 2
                [Op 16 (other_op ''work'') [BlockArgument 10 0, BlockArgument 10 1] 1 [],
                 Op 17 (other_op ''store'') [OpResult 16 0] 0 [],
                 Op 18 scf_reduce [] 0 []]]]],
     nextId = 19, ip = InsertBefore 3\<rparr>"
  by (simp add: nested_parallel_example_def MergeNestedParallelLoops_def eval_defs Let_def
      getLowerBound_def getUpperBound_def getStep_def getInitVals_def getArguments_def
      cloneOps_def cloneValue_def cloneSpan_def block_ids_def blocks_of_list_def isTerminator_def
      substitute_def insertOps_def spliceBefore_def replaceOp_def getResults_def eraseOp_def removeOp_def
      succeed_def)

section \<open>ReplaceIfYieldWithConditionOrValue and RemoveUnusedResults\<close>

lemma ifFresh_mono: "N \<le> ifFresh rep N m"
  by (induction m) auto

lemma ifFresh_le: "k \<le> m \<Longrightarrow> ifFresh rep N k \<le> ifFresh rep N m"
  by (induction m) (auto simp: le_Suc_eq)

lemma ifNews_ids:
  "map op_id (ops_of_list (ifNews rep cond N m)) = map op_id (ifNews rep cond N m)"
  by (induction m) (auto simp: ops_of_regions_def)

lemma ifNews_ids_range:
  "set (map op_id (ifNews rep cond N m)) \<subseteq> {N..<ifFresh rep N m}"
proof (induction m)
  case 0
  then show ?case by simp
next
  case (Suc m)
  have "N \<le> ifFresh rep N m" by (rule ifFresh_mono)
  then show ?case using Suc by auto
qed

lemma ifNews_ids_distinct: "distinct (map op_id (ifNews rep cond N m))"
proof (induction m)
  case 0
  then show ?case by simp
next
  case (Suc m)
  then show ?case using ifNews_ids_range[of rep cond N m] by auto
qed

lemma ifNews_operands:
  "y \<in> set (ops_of_list (ifNews rep cond N m)) \<Longrightarrow>
   set (getOperands y) \<subseteq> {cond} \<union> {OpResult c 0 |c. N \<le> c}"
proof (induction m)
  case 0
  then show ?case by simp
next
  case (Suc m)
  have "N \<le> ifFresh rep N m" by (rule ifFresh_mono)
  then show ?case using Suc by (auto simp: ops_of_regions_def split: if_splits)
qed


lemma find_distinct:
  "distinct (map f xs) \<Longrightarrow> y \<in> set xs \<Longrightarrow> find (\<lambda>z. f z = f y) xs = Some y"
  by (induction xs) (auto simp: rev_image_eqI)

lemma lookupOp_distinct:
  "distinct (map op_id (ops_of_block root)) \<Longrightarrow> y \<in> set (ops_of_block root) \<Longrightarrow>
   lookupOp root (op_id y) = Some y"
  unfolding lookupOp_def by (rule find_distinct)

lemma find_append_cong: "find P ys = find P zs \<Longrightarrow> find P (xs @ ys) = find P (xs @ zs)"
  by (induction xs) auto

lemma lookupOp_drop_mid:
  assumes "j \<notin> op_ids mid"
  shows "lookupOp (Block b a (pre @ mid @ rest)) j = lookupOp (Block b a (pre @ rest)) j"
  unfolding lookupOp_Block ops_of_list_append
  using assms by (intro find_append_cong find_op_skip)

lemma m_ConstantInt_cong:
  assumes "\<And>j k. v = OpResult j k \<Longrightarrow> map_option op_name (lookupOp root1 j) = map_option op_name (lookupOp root2 j)"
  shows "m_ConstantInt root1 v = m_ConstantInt root2 v"
proof (cases v)
  case (OpResult j k)
  then have "map_option op_name (lookupOp root1 j) = map_option op_name (lookupOp root2 j)"
    using assms by simp
  then show ?thesis using OpResult
    by (cases "lookupOp root1 j"; cases "lookupOp root2 j") (auto simp: m_ConstantInt_def getDefiningOp_def)
next
  case (BlockArgument c k)
  then show ?thesis by (simp add: m_ConstantInt_def getDefiningOp_def)
qed

lemma use_empty_subst:
  assumes "\<And>v. (s v = w) = (v = w)"
  shows "use_empty (substBlock s root) w = use_empty root w"
proof -
  have "(w \<in> s ` A) = (w \<in> A)" for A
    using assms by (metis image_iff)
  then show ?thesis
    by (simp add: use_empty_def ops_of_subst_aux)
qed


lemma use_empty_drop_mid:
  assumes "\<And>y. y \<in> set (ops_of_list mid) \<Longrightarrow> w \<notin> set (getOperands y)"
  shows "use_empty (Block b a (pre @ mid @ rest)) w = use_empty (Block b a (pre @ rest)) w"
  using assms by (auto simp: use_empty_def)

lemma ifSubst_Suc:
  "ifSubst rep cond N i (Suc m) =
     (\<lambda>v. if v = OpResult i m
          then (case rep m of
                  ByValue t \<Rightarrow> t
                | ByCondition \<Rightarrow> cond
                | ByNegation \<Rightarrow> OpResult (Suc (ifFresh rep N m)) 0
                | Kept \<Rightarrow> v)
          else ifSubst rep cond N i m v)"
  by (rule ext) (auto simp: ifSubst_def less_Suc_eq split: val.splits)

lemma ifSubst_fixes: "(\<And>k. v \<noteq> OpResult i k) \<Longrightarrow> ifSubst rep cond N i m v = v"
  by (auto simp: ifSubst_def split: val.splits)

lemma ifSubst_range:
  "ifSubst rep cond N i m v = v \<or>
   (\<exists>k<m. v = OpResult i k \<and>
      (rep k = ByValue (ifSubst rep cond N i m v) \<or> ifSubst rep cond N i m v = cond \<or>
       (\<exists>c\<ge>N. ifSubst rep cond N i m v = OpResult c 0)))"
proof (cases v)
  case (OpResult j k)
  show ?thesis
  proof (cases "j = i \<and> k < m")
    case True
    have "N \<le> Suc (ifFresh rep N k)"
      using ifFresh_mono[of N rep k] by simp
    then show ?thesis using True OpResult
      by (cases "rep k") (auto simp: ifSubst_def)
  next
    case False
    then show ?thesis using OpResult by (auto simp: ifSubst_def)
  qed
next
  case (BlockArgument c k)
  then show ?thesis by (simp add: ifSubst_def)
qed

lemma yieldReplacement_ByValue: "yieldReplacement root t f = ByValue u \<Longrightarrow> u = t"
  by (auto simp: yieldReplacement_def split: if_splits option.splits)

lemma ifReplacement_ByValue:
  "ifReplacement root i ts fs k = ByValue u \<Longrightarrow> u = ts ! k"
  by (auto simp: ifReplacement_def dest: yieldReplacement_ByValue split: if_splits)


lemma strictly_below_subst:
  "op_id ` set (tl (ops_of_op (substOp s y))) = op_id ` set (tl (ops_of_op y))"
  by (simp add: ops_of_subst_aux map_tl[symmetric] image_image del: map_tl)

lemma substOp_fixed_leaf:
  "(\<And>v. v \<in> set os \<Longrightarrow> s v = v) \<Longrightarrow> substOp s (Op j nm os k []) = Op j nm os k []"
  by (simp add: map_idI)

lemma replaceIfYield_rounds:
  assumes x: "x = Op i scf_if [cond] n
                  [[Block tb ta (tbody @ [Op ty scf_yield ts 0 []])],
                   [Block fb fa (fbody @ [Op fy scf_yield fs 0 []])]]"
      and root: "ir rw = Block b a (pre @ x # post)"
      and ops: "distinct (map op_id (ops_of_block (ir rw)))"
      and bound: "\<forall>j \<in> op_ids (pre @ x # post). j < nextId rw"
      and lens: "length ts = n" "length fs = n"
      and ssa: "\<forall>k. OpResult i k \<notin> set (cond # ts @ fs)"
      and known: "\<forall>j k. OpResult j k \<in> set (cond # ts @ fs) \<longrightarrow> j < nextId rw"
      and rep: "rep = ifReplacement (ir rw) i ts fs"
  shows "m \<le> n \<Longrightarrow>
         fold (replaceIfYieldRound i ty fy) [0..<m] (Ok (rw\<lparr>ip := InsertBefore i\<rparr>, False)) =
         Ok (rw\<lparr>ir := Block b a (map (substOp (ifSubst rep cond (nextId rw) i m))
                                  (pre @ ifNews rep cond (nextId rw) m @ x # post)),
               nextId := ifFresh rep (nextId rw) m, ip := InsertBefore i\<rparr>,
             \<exists>k<m. rep k \<noteq> Kept)"
proof (induction m)
  case 0
  have "ifSubst rep cond (nextId rw) i 0 = (\<lambda>v. v)"
    by (rule ext) (simp add: ifSubst_def split: val.splits)
  then show ?case by (simp add: subst_ident_aux root[symmetric])
next
  case (Suc m)
  define N where "N = nextId rw"
  define s where "s = ifSubst rep cond N i m"
  define news where "news = ifNews rep cond N m"
  define F where "F = ifFresh rep N m"
  define yt where "yt = Op ty scf_yield ts 0 []"
  define yf where "yf = Op fy scf_yield fs 0 []"
  define st where "st = rw\<lparr>ir := Block b a (map (substOp s) (pre @ news @ x # post)),
                          nextId := F, ip := InsertBefore i\<rparr>"
  define w where "w = OpResult i m"
  have m: "m < n" using Suc.prems by simp
  have IH: "fold (replaceIfYieldRound i ty fy) [0..<m] (Ok (rw\<lparr>ip := InsertBefore i\<rparr>, False)) =
            Ok (st, \<exists>k<m. rep k \<noteq> Kept)"
    using Suc.IH m unfolding st_def s_def news_def F_def N_def by simp
  \<comment> \<open>identifiers\<close>
  have orig: "distinct (map op_id (ops_of_list pre @ ops_of_op x @ ops_of_list post))"
    using ops unfolding root by simp
  have iN: "i < N"
    using bound unfolding N_def x by (simp add: op_ids_list)
  have NF: "N \<le> F"
    unfolding F_def by (rule ifFresh_mono)
  have news_range: "op_ids news \<subseteq> {N..<F}"
    unfolding news_def F_def op_ids_def using ifNews_ids_range[of rep cond N m]
    by (simp add: ifNews_ids)
  have old_range: "op_ids (pre @ x # post) \<subseteq> {..<N}"
    using bound unfolding N_def by auto
  have news_distinct: "distinct (map op_id (ops_of_list news))"
    unfolding news_def by (simp add: ifNews_ids ifNews_ids_distinct)
  have "op_ids news \<inter> {..<N} = {}"
    using news_range by auto
  then have disj: "op_ids news \<inter> op_ids (pre @ x # post) = {}"
    using old_range by blast
  have dL: "distinct (map op_id (ops_of_block (Block b a (pre @ news @ x # post))))"
    using orig news_distinct disj
    by (auto simp: op_ids_list)
  have mem: "x \<in> set (ops_of_block (Block b a (pre @ news @ x # post)))"
            "yt \<in> set (ops_of_block (Block b a (pre @ news @ x # post)))"
            "yf \<in> set (ops_of_block (Block b a (pre @ news @ x # post)))"
    unfolding x yt_def yf_def by simp_all
  have ids: "op_id x = i" "op_id yt = ty" "op_id yf = fy"
    unfolding x yt_def yf_def by simp_all
  have look0: "lookupOp (Block b a (pre @ news @ x # post)) i = Some x"
              "lookupOp (Block b a (pre @ news @ x # post)) ty = Some yt"
              "lookupOp (Block b a (pre @ news @ x # post)) fy = Some yf"
    using lookupOp_distinct[OF dL mem(1)] lookupOp_distinct[OF dL mem(2)] lookupOp_distinct[OF dL mem(3)] ids
    by simp_all
  have st_ir: "ir st = substBlock s (Block b a (pre @ news @ x # post))"
    by (simp add: st_def)
  have look: "lookupOp (ir st) i = Some (substOp s x)"
             "lookupOp (ir st) ty = Some (substOp s yt)"
             "lookupOp (ir st) fy = Some (substOp s yf)"
    unfolding st_ir lookupOp_subst look0 by simp_all
  \<comment> \<open>the replacement made so far\<close>
  have fixed: "s v = v" if "v \<in> set (cond # ts @ fs)" for v
    unfolding s_def using ssa that by (intro ifSubst_fixes) auto
  have sound: "(s v = w) = (v = w)" for v
  proof
    assume "v = w"
    then show "s v = w" by (simp add: s_def w_def ifSubst_def)
  next
    assume sv: "s v = w"
    show "v = w"
    proof (rule ccontr)
      assume "v \<noteq> w"
      then have "s v \<noteq> v" using sv by auto
      then obtain k where k: "k < m" "v = OpResult i k"
        "rep k = ByValue (s v) \<or> s v = cond \<or> (\<exists>c\<ge>N. s v = OpResult c 0)"
        using ifSubst_range[of rep cond N i m v] unfolding s_def by blast
      have "rep k \<noteq> ByValue w"
      proof
        assume "rep k = ByValue w"
        then have "w = ts ! k" unfolding rep by (rule ifReplacement_ByValue)
        then have "w \<in> set ts" using k(1) m lens by auto
        then show False using ssa unfolding w_def by auto
      qed
      moreover have "w \<noteq> cond" using ssa unfolding w_def by auto
      moreover have "\<not> (\<exists>c\<ge>N. w = OpResult c 0)" using iN unfolding w_def by auto
      ultimately show False using k(3) sv by auto
    qed
  qed
  have operands: "getOperands (substOp s x) = [cond]" "getOperands (substOp s yt) ! m = ts ! m"
                 "getOperands (substOp s yf) ! m = fs ! m"
    using fixed m lens unfolding x yt_def yf_def by simp_all
  \<comment> \<open>uses and constants are those of the start\<close>
  have news_uses: "w \<notin> set (getOperands y)" if "y \<in> set (ops_of_list news)" for y
  proof -
    have "set (getOperands y) \<subseteq> {cond} \<union> {OpResult c 0 |c. N \<le> c}"
      using that unfolding news_def by (rule ifNews_operands)
    moreover have "w \<noteq> cond" using ssa unfolding w_def by auto
    ultimately show ?thesis using iN unfolding w_def by auto
  qed
  have ue: "use_empty (ir st) w = use_empty (ir rw) w"
    unfolding st_ir root use_empty_subst[of s w, OF sound]
    using news_uses by (rule use_empty_drop_mid)
  have const: "m_ConstantBool (ir st) v = m_ConstantBool (ir rw) v" if "v \<in> set (ts @ fs)" for v
  proof -
    have "m_ConstantInt (ir st) v = m_ConstantInt (ir rw) v"
    proof (rule m_ConstantInt_cong)
      fix j k assume "v = OpResult j k"
      then have "j < N" using known that unfolding N_def by auto
      then have "j \<notin> op_ids news" using news_range by auto
      then have "lookupOp (Block b a (pre @ news @ x # post)) j = lookupOp (Block b a (pre @ x # post)) j"
        by (rule lookupOp_drop_mid)
      then show "map_option op_name (lookupOp (ir st) j) = map_option op_name (lookupOp (ir rw) j)"
        unfolding st_ir lookupOp_subst root by (simp add: option.map_comp o_def)
    qed
    then show ?thesis by (simp add: m_ConstantBool_def)
  qed
  \<comment> \<open>the effect of the primitives on the state reached\<close>
  have comp: "replaceValue w r \<circ> s = (\<lambda>v. if v = w then r else s v)" for r
    by (rule ext) (simp add: replaceValue_def sound)
  have R1: "replaceAllUsesWith w r st =
        rw\<lparr>ir := Block b a (map (substOp (\<lambda>v. if v = w then r else s v)) (pre @ news @ x # post)),
            nextId := F, ip := InsertBefore i\<rparr>" for r
    by (simp add: replaceAllUsesWith_def st_def substOp_substOp comp)
  define c where "c = Op F (arith_constant (IntegerAttr (APInt 1 1))) [] 1 []"
  define xo where "xo = Op (Suc F) arith_xori [cond, OpResult F 0] 1 []"
  have iF: "i \<noteq> F" "i \<noteq> Suc F" using iN NF by auto
  have i_pre: "i \<notin> op_ids (pre @ news)" "i \<notin> op_ids post" "i \<notin> op_id ` set (tl (ops_of_op x))"
    using dL unfolding x by (auto simp: op_ids_list)
  have sc: "substOp s c = c" "substOp s xo = xo"
    unfolding c_def xo_def using fixed iF by (auto simp: s_def ifSubst_def intro!: substOp_fixed_leaf)
  have ins1: "map_block id (spliceBefore i [c]) (Block b a (map (substOp s) (pre @ news) @ substOp s x # map (substOp s) post)) =
        Block b a (map (substOp s) (pre @ news) @ [c] @ substOp s x # map (substOp s) post)"
    using i_pre ids(1) by (intro spliceBefore_at) (simp_all add: strictly_below_subst)
  have ins2: "map_block id (spliceBefore i [xo]) (Block b a ((map (substOp s) (pre @ news) @ [c]) @ substOp s x # map (substOp s) post)) =
        Block b a ((map (substOp s) (pre @ news) @ [c]) @ [xo] @ substOp s x # map (substOp s) post)"
    using i_pre iF ids(1) by (intro spliceBefore_at) (simp_all add: strictly_below_subst c_def op_ids_Cons)
  have created: "createOp (arith_constant (IntegerAttr (APInt 1 1))) [] 1 [] st =
        (F, rw\<lparr>ir := Block b a (map (substOp s) (pre @ news) @ [c] @ substOp s x # map (substOp s) post),
                nextId := Suc F, ip := InsertBefore i\<rparr>)"
    using ins1 by (simp add: createOp_def insertOps_def st_def c_def)
  have created2: "createOp arith_xori [cond, OpResult F 0] 1 []
          (rw\<lparr>ir := Block b a (map (substOp s) (pre @ news) @ [c] @ substOp s x # map (substOp s) post),
                nextId := Suc F, ip := InsertBefore i\<rparr>) =
        (Suc F, rw\<lparr>ir := Block b a (map (substOp s) (pre @ (news @ [c, xo]) @ x # post)),
                nextId := Suc (Suc F), ip := InsertBefore i\<rparr>)"
    using ins2 sc by (simp add: createOp_def insertOps_def xo_def)
  have R2: "replaceAllUsesWith w r
          (rw\<lparr>ir := Block b a (map (substOp s) (pre @ (news @ [c, xo]) @ x # post)),
                nextId := Suc (Suc F), ip := InsertBefore i\<rparr>) =
        rw\<lparr>ir := Block b a (map (substOp (\<lambda>v. if v = w then r else s v)) (pre @ (news @ [c, xo]) @ x # post)),
            nextId := Suc (Suc F), ip := InsertBefore i\<rparr>" for r
    by (simp add: replaceAllUsesWith_def substOp_substOp comp)
  have neg: "(case createOp (arith_constant (IntegerAttr (APInt 1 1))) [] 1 [] st of
               (one, rwa) \<Rightarrow>
                 (case createOp arith_xori [cond, OpResult one 0] 1 [] rwa of
                    (notCond, rwb) \<Rightarrow> (replaceAllUsesWith w (OpResult notCond 0) rwb, True))) =
             (replaceAllUsesWith w (OpResult (Suc F) 0)
                (rw\<lparr>ir := Block b a (map (substOp s) (pre @ (news @ [c, xo]) @ x # post)),
                     nextId := Suc (Suc F), ip := InsertBefore i\<rparr>), True)"
    unfolding created prod.case created2 ..
  \<comment> \<open>round \<open>m\<close>\<close>
  define t where "t = ts ! m"
  define f where "f = fs ! m"
  have tf: "t \<in> set (ts @ fs)" "f \<in> set (ts @ fs)"
    using m lens unfolding t_def f_def by auto
  have repm: "rep m = (if use_empty (ir rw) w then Kept else yieldReplacement (ir rw) t f)"
    by (simp add: rep ifReplacement_def w_def t_def f_def)
  have ch: "(\<exists>k<Suc m. rep k \<noteq> Kept) = ((\<exists>k<m. rep k \<noteq> Kept) \<or> rep m \<noteq> Kept)"
    by (auto simp: less_Suc_eq)
  have round: "replaceIfYieldRound i ty fy m (Ok (st, ch0)) =
      (if t = f
       then (if \<not> use_empty (ir rw) w then Ok (replaceAllUsesWith w t st, True) else Ok (st, ch0))
       else (case (m_ConstantBool (ir rw) t, m_ConstantBool (ir rw) f) of
               (Some trueVal, Some falseVal) \<Rightarrow>
                 if \<not> trueVal \<and> falseVal \<and> \<not> use_empty (ir rw) w
                 then Ok (replaceAllUsesWith w (OpResult (Suc F) 0)
                            (rw\<lparr>ir := Block b a (map (substOp s) (pre @ (news @ [c, xo]) @ x # post)),
                                 nextId := Suc (Suc F), ip := InsertBefore i\<rparr>), True)
                 else if trueVal \<and> \<not> falseVal \<and> \<not> use_empty (ir rw) w
                      then Ok (replaceAllUsesWith w cond st, True)
                      else Ok (st, ch0)
             | _ \<Rightarrow> Ok (st, ch0)))" for ch0
    unfolding replaceIfYieldRound_def
    by (auto simp: bindA_def look operands ue const[OF tf(1)] const[OF tf(2)] Let_def
        t_def[symmetric] f_def[symmetric] w_def[symmetric] neg
        simp del: substOp_sel One_nat_def split: option.splits)
  have target: "Ok (rw\<lparr>ir := Block b a (map (substOp (ifSubst rep cond (nextId rw) i (Suc m)))
                                  (pre @ ifNews rep cond (nextId rw) (Suc m) @ x # post)),
               nextId := ifFresh rep (nextId rw) (Suc m), ip := InsertBefore i\<rparr>,
             \<exists>k<Suc m. rep k \<noteq> Kept) =
        (case rep m of
           Kept \<Rightarrow> Ok (st, \<exists>k<m. rep k \<noteq> Kept)
         | ByValue u \<Rightarrow> Ok (replaceAllUsesWith w u st, True)
         | ByCondition \<Rightarrow> Ok (replaceAllUsesWith w cond st, True)
         | ByNegation \<Rightarrow>
             Ok (replaceAllUsesWith w (OpResult (Suc F) 0)
                   (rw\<lparr>ir := Block b a (map (substOp s) (pre @ (news @ [c, xo]) @ x # post)),
                        nextId := Suc (Suc F), ip := InsertBefore i\<rparr>), True))"
  proof -
    have sw: "s w = w"
      using sound[of w] by simp
    have keep: "(\<lambda>v. if v = w then w else s v) = s"
      by (rule ext) (simp add: sw)
    show ?thesis
      unfolding ch ifSubst_Suc R1 R2
      by (cases "rep m")
         (simp_all add: st_def s_def news_def F_def N_def c_def xo_def w_def keep[unfolded s_def w_def N_def] cong: if_cong)
  qed
  have "replaceIfYieldRound i ty fy m (Ok (st, \<exists>k<m. rep k \<noteq> Kept)) =
        (case rep m of
           Kept \<Rightarrow> Ok (st, \<exists>k<m. rep k \<noteq> Kept)
         | ByValue u \<Rightarrow> Ok (replaceAllUsesWith w u st, True)
         | ByCondition \<Rightarrow> Ok (replaceAllUsesWith w cond st, True)
         | ByNegation \<Rightarrow>
             Ok (replaceAllUsesWith w (OpResult (Suc F) 0)
                   (rw\<lparr>ir := Block b a (map (substOp s) (pre @ (news @ [c, xo]) @ x # post)),
                        nextId := Suc (Suc F), ip := InsertBefore i\<rparr>), True))"
    unfolding round repm
    by (auto simp: yieldReplacement_def split: option.splits)
  then show ?case
    unfolding target using IH by simp
qed

lemma replaceIfYield_result:
  assumes root: "ir rw = Block b a (pre @ Op i scf_if [cond] n
                    [[Block tb ta (tbody @ [Op ty scf_yield ts 0 []])],
                     [Block fb fa (fbody @ [Op fy scf_yield fs 0 []])]] # post)"
      and ops: "distinct (map op_id (ops_of_block (ir rw)))"
      and bound: "\<forall>j \<in> op_ids (pre @ Op i scf_if [cond] n
                    [[Block tb ta (tbody @ [Op ty scf_yield ts 0 []])],
                     [Block fb fa (fbody @ [Op fy scf_yield fs 0 []])]] # post). j < nextId rw"
      and lens: "length ts = n" "length fs = n"
      and ssa: "\<forall>k. OpResult i k \<notin> set (cond # ts @ fs)"
      and known: "\<forall>j k. OpResult j k \<in> set (cond # ts @ fs) \<longrightarrow> j < nextId rw"
  shows "ReplaceIfYieldWithConditionOrValue rw i =
         (if \<exists>k<n. ifReplacement (ir rw) i ts fs k \<noteq> Kept
          then success
                 (rw\<lparr>ir := Block b a
                         (map (substOp (ifSubst (ifReplacement (ir rw) i ts fs) cond (nextId rw) i n))
                            (pre @ ifNews (ifReplacement (ir rw) i ts fs) cond (nextId rw) n @
                             Op i scf_if [cond] n
                               [[Block tb ta (tbody @ [Op ty scf_yield ts 0 []])],
                                [Block fb fa (fbody @ [Op fy scf_yield fs 0 []])]] # post)),
                     nextId := ifFresh (ifReplacement (ir rw) i ts fs) (nextId rw) n,
                     ip := InsertBefore i\<rparr>)
          else failure)"
proof -
  let ?yt = "Op ty scf_yield ts 0 []"
  let ?yf = "Op fy scf_yield fs 0 []"
  let ?x = "Op i scf_if [cond] n [[Block tb ta (tbody @ [?yt])], [Block fb fa (fbody @ [?yf])]]"
  have "i \<notin> op_ids pre"
    using ops unfolding root by (auto simp: op_ids_list)
  then have look: "lookupOp (ir rw) i = Some ?x"
    using root lookupOp_at[of ?x pre b a post] by simp
  have yields: "getYield [Block tb ta (tbody @ [?yt])] = Ok ?yt" "getYield [Block fb fa (fbody @ [?yf])] = Ok ?yf"
    by (simp_all add: getYield_def getTerminator_def isTerminator_def bindA_def)
  have rounds: "fold (replaceIfYieldRound i ty fy) [0..<n] (Ok (rw\<lparr>ip := InsertBefore i\<rparr>, False)) =
         Ok (rw\<lparr>ir := Block b a (map (substOp (ifSubst (ifReplacement (ir rw) i ts fs) cond (nextId rw) i n))
                                  (pre @ ifNews (ifReplacement (ir rw) i ts fs) cond (nextId rw) n @ ?x # post)),
               nextId := ifFresh (ifReplacement (ir rw) i ts fs) (nextId rw) n, ip := InsertBefore i\<rparr>,
             \<exists>k<n. ifReplacement (ir rw) i ts fs k \<noteq> Kept)"
    using replaceIfYield_rounds[OF refl root ops bound lens ssa known refl, of n] by simp
  show ?thesis
  proof (cases "n = 0")
    case True
    then show ?thesis using look by (simp add: ReplaceIfYieldWithConditionOrValue_def)
  next
    case False
    then show ?thesis
      using look yields lens rounds by (simp add: ReplaceIfYieldWithConditionOrValue_def)
  qed
qed

lemma same_yield_root:
  "ir same_yield_example =
     Block 0 2 ([c64 0 9] @
       Op 1 scf_if [BlockArgument 0 0] 2
         [[Block 1 0 ([] @ [Op 2 scf_yield [OpResult 0 0, BlockArgument 0 1] 0 []])],
          [Block 2 0 ([] @ [Op 3 scf_yield [OpResult 0 0, BlockArgument 0 1] 0 []])]] #
       [Op 4 (other_op ''use'') [OpResult 1 0, OpResult 1 1] 0 []])"
  by (simp add: same_yield_example_def)

lemma same_yield_ops: "distinct (map op_id (ops_of_block (ir same_yield_example)))"
  by (simp add: same_yield_example_def c64_def ops_of_list_def)

lemma same_yield_bound:
  "\<forall>j \<in> op_ids ([c64 0 9] @
       Op 1 scf_if [BlockArgument 0 0] 2
         [[Block 1 0 ([] @ [Op 2 scf_yield [OpResult 0 0, BlockArgument 0 1] 0 []])],
          [Block 2 0 ([] @ [Op 3 scf_yield [OpResult 0 0, BlockArgument 0 1] 0 []])]] #
       [Op 4 (other_op ''use'') [OpResult 1 0, OpResult 1 1] 0 []]). j < nextId same_yield_example"
  by (simp add: same_yield_example_def c64_def op_ids_def ops_of_list_def)

lemma same_yield_lens: "length [OpResult 0 0, BlockArgument 0 1] = 2"
  by simp

lemma same_yield_ssa:
  "\<forall>k. OpResult 1 k \<notin> set (BlockArgument 0 0 # [OpResult 0 0, BlockArgument 0 1] @ [OpResult 0 0, BlockArgument 0 1])"
  by simp

lemma same_yield_known:
  "\<forall>j k. OpResult j k \<in> set (BlockArgument 0 0 # [OpResult 0 0, BlockArgument 0 1] @ [OpResult 0 0, BlockArgument 0 1])
     \<longrightarrow> j < nextId same_yield_example"
  by (simp add: same_yield_example_def)

lemma same_yield_reading:
  assumes "R =
     (if \<exists>k<2. ifReplacement (ir same_yield_example) 1 [OpResult 0 0, BlockArgument 0 1]
                  [OpResult 0 0, BlockArgument 0 1] k \<noteq> Kept
      then success
             (same_yield_example\<lparr>ir := Block 0 2
                 (map (substOp (ifSubst (ifReplacement (ir same_yield_example) 1 [OpResult 0 0, BlockArgument 0 1]
                                           [OpResult 0 0, BlockArgument 0 1])
                                  (BlockArgument 0 0) (nextId same_yield_example) 1 2))
                    ([c64 0 9] @
                     ifNews (ifReplacement (ir same_yield_example) 1 [OpResult 0 0, BlockArgument 0 1]
                               [OpResult 0 0, BlockArgument 0 1])
                       (BlockArgument 0 0) (nextId same_yield_example) 2 @
                     Op 1 scf_if [BlockArgument 0 0] 2
                       [[Block 1 0 ([] @ [Op 2 scf_yield [OpResult 0 0, BlockArgument 0 1] 0 []])],
                        [Block 2 0 ([] @ [Op 3 scf_yield [OpResult 0 0, BlockArgument 0 1] 0 []])]] #
                     [Op 4 (other_op ''use'') [OpResult 1 0, OpResult 1 1] 0 []])),
                nextId := ifFresh (ifReplacement (ir same_yield_example) 1 [OpResult 0 0, BlockArgument 0 1]
                                     [OpResult 0 0, BlockArgument 0 1])
                            (nextId same_yield_example) 2,
                ip := InsertBefore 1\<rparr>)
      else failure)"
  shows "R = success same_yield_replaced"
proof -
  define rep where "rep = ifReplacement (ir same_yield_example) 1 [OpResult 0 0, BlockArgument 0 1]
                            [OpResult 0 0, BlockArgument 0 1]"
  have r: "rep 0 = ByValue (OpResult 0 0)" "rep (Suc 0) = ByValue (BlockArgument 0 1)"
    by (simp_all add: rep_def ifReplacement_def yieldReplacement_def use_empty_def
          same_yield_example_def c64_def ops_of_list_def)
  have two: "(2::nat) = Suc (Suc 0)" by simp
  have ex: "\<exists>k<2. rep k \<noteq> Kept"
    using r(1) by (intro exI[of _ 0]) simp
  have news: "ifNews rep (BlockArgument 0 0) 5 2 = []" "ifFresh rep 5 2 = 5"
    unfolding two using r by simp_all
  have sub: "ifSubst rep (BlockArgument 0 0) 5 (Suc 0) 2 (OpResult (Suc 0) 0) = OpResult 0 0"
            "ifSubst rep (BlockArgument 0 0) 5 (Suc 0) 2 (OpResult (Suc 0) (Suc 0)) = BlockArgument 0 (Suc 0)"
            "ifSubst rep (BlockArgument 0 0) 5 (Suc 0) 2 (OpResult 0 0) = OpResult 0 0"
            "ifSubst rep (BlockArgument 0 0) 5 (Suc 0) 2 (BlockArgument 0 0) = BlockArgument 0 0"
            "ifSubst rep (BlockArgument 0 0) 5 (Suc 0) 2 (BlockArgument 0 (Suc 0)) = BlockArgument 0 (Suc 0)"
    using r by (simp_all add: ifSubst_def)
  have "R = success (same_yield_example
          \<lparr>ir := Block 0 2 (map (substOp (ifSubst rep (BlockArgument 0 0) 5 1 2))
                   ([c64 0 9] @
                     Op 1 scf_if [BlockArgument 0 0] 2
                       [[Block 1 0 ([] @ [Op 2 scf_yield [OpResult 0 0, BlockArgument 0 1] 0 []])],
                        [Block 2 0 ([] @ [Op 3 scf_yield [OpResult 0 0, BlockArgument 0 1] 0 []])]] #
                     [Op 4 (other_op ''use'') [OpResult 1 0, OpResult 1 1] 0 []])),
            nextId := 5, ip := InsertBefore 1\<rparr>)"
    using assms ex news
    unfolding rep_def[symmetric] by (simp add: same_yield_example_def)
  then show ?thesis
    by (simp add: sub same_yield_example_def same_yield_replaced_def c64_def)
qed

lemmas rewriter_defs = createOp_def createBlock_def appendBlock_def getYield_def setYieldOperands_def
  transferBody_def mergeBlocks_def inlineBlock_def insertOps_def spliceBefore_def spliceAtEnd_def
  eraseBlock_def removeBlock_def eraseOp_def removeOp_def getTerminator_def isTerminator_def
  lookupOp_def lookupBlock_def use_empty_def bindA_def succeed_def getArguments_def
  ops_of_list_def ops_of_regions_def blocks_of_regions_def blocks_of_list_def c64_def Let_def

lemma RemoveUnusedResults_same_yield:
  "RemoveUnusedResults same_yield_replaced 1 = success same_yield_pruned"
  unfolding RemoveUnusedResults_def
  by (simp add: same_yield_replaced_def same_yield_pruned_def rewriter_defs numeral_2_eq_2)

text \<open>
  C4, as stated, fails in its last part: on \<open>if %c { yield 9, %v } else { yield 9, %v }\<close>
  \<open>ReplaceIfYieldWithConditionOrValue\<close> replaces the uses of both results by 9 and \<open>%v\<close>,
  but the scf.if is still in the block; \<open>RemoveUnusedResults\<close> then replaces it by an scf.if
  without results, which is in the block as well, and on which both patterns fail. Neither
  pattern eliminates the operation.
\<close>

theorem if_remains_counterexample:
  "ReplaceIfYieldWithConditionOrValue same_yield_example 1 = success same_yield_replaced
   \<and> lookupOp (ir same_yield_replaced) 1 =
       Some (Op 1 scf_if [BlockArgument 0 0] 2
               [[Block 1 0 [Op 2 scf_yield [OpResult 0 0, BlockArgument 0 1] 0 []]],
                [Block 2 0 [Op 3 scf_yield [OpResult 0 0, BlockArgument 0 1] 0 []]]])
   \<and> RemoveUnusedResults same_yield_replaced 1 = success same_yield_pruned
   \<and> lookupOp (ir same_yield_pruned) 5 =
       Some (Op 5 scf_if [BlockArgument 0 0] 0
               [[Block 6 0 [Op 2 scf_yield [] 0 []]], [Block 7 0 [Op 3 scf_yield [] 0 []]]])
   \<and> ReplaceIfYieldWithConditionOrValue same_yield_pruned 5 = failure
   \<and> RemoveUnusedResults same_yield_pruned 5 = failure"
proof -
  have a: "ReplaceIfYieldWithConditionOrValue same_yield_example 1 = success same_yield_replaced"
    using replaceIfYield_result[OF same_yield_root same_yield_ops same_yield_bound
            same_yield_lens same_yield_lens same_yield_ssa same_yield_known]
    by (rule same_yield_reading)
  have b: "lookupOp (ir same_yield_replaced) 1 =
       Some (Op 1 scf_if [BlockArgument 0 0] 2
               [[Block 1 0 [Op 2 scf_yield [OpResult 0 0, BlockArgument 0 1] 0 []]],
                [Block 2 0 [Op 3 scf_yield [OpResult 0 0, BlockArgument 0 1] 0 []]]])"
    by (simp add: same_yield_replaced_def lookupOp_def c64_def ops_of_list_def)
  have c: "lookupOp (ir same_yield_pruned) 5 =
       Some (Op 5 scf_if [BlockArgument 0 0] 0
               [[Block 6 0 [Op 2 scf_yield [] 0 []]], [Block 7 0 [Op 3 scf_yield [] 0 []]]])"
    by (simp add: same_yield_pruned_def lookupOp_def c64_def ops_of_list_def)
  have d: "ReplaceIfYieldWithConditionOrValue same_yield_pruned 5 = failure"
    by (simp add: ReplaceIfYieldWithConditionOrValue_def c)
  have e: "RemoveUnusedResults same_yield_pruned 5 = failure"
    by (simp add: RemoveUnusedResults_def c)
  show ?thesis
    using a b c d e RemoveUnusedResults_same_yield by simp
qed

text \<open>
  C4, amended: \<open>ReplaceIfYieldWithConditionOrValue\<close> acts on each result position on its own.
  Where the two yields are the same value and the result has a use, the uses are replaced by
  that value; where they are the constants true and false, the uses are replaced by the
  condition; where they are false and true, a constant 1 and an \<open>arith.xori\<close> of the condition
  with it are created in front of the scf.if and the uses are replaced by its result; all
  other positions are kept. The scf.if stays where it is, and the pattern fails when no
  position is replaced.
\<close>

theorem ReplaceIfYieldWithConditionOrValue_per_position:
  assumes root: "ir rw = Block b a (pre @ Op i scf_if [cond] n
                    [[Block tb ta (tbody @ [Op ty scf_yield ts 0 []])],
                     [Block fb fa (fbody @ [Op fy scf_yield fs 0 []])]] # post)"
      and ops: "distinct (map op_id (ops_of_block (ir rw)))"
      and bound: "\<forall>j \<in> op_ids (pre @ Op i scf_if [cond] n
                    [[Block tb ta (tbody @ [Op ty scf_yield ts 0 []])],
                     [Block fb fa (fbody @ [Op fy scf_yield fs 0 []])]] # post). j < nextId rw"
      and lens: "length ts = n" "length fs = n"
      and ssa: "\<forall>k. OpResult i k \<notin> set (cond # ts @ fs)"
      and known: "\<forall>j k. OpResult j k \<in> set (cond # ts @ fs) \<longrightarrow> j < nextId rw"
  shows "ReplaceIfYieldWithConditionOrValue rw i =
         (if \<exists>k<n. ifReplacement (ir rw) i ts fs k \<noteq> Kept
          then success
                 (rw\<lparr>ir := Block b a
                         (map (substOp (ifSubst (ifReplacement (ir rw) i ts fs) cond (nextId rw) i n))
                            (pre @ ifNews (ifReplacement (ir rw) i ts fs) cond (nextId rw) n @
                             Op i scf_if [cond] n
                               [[Block tb ta (tbody @ [Op ty scf_yield ts 0 []])],
                                [Block fb fa (fbody @ [Op fy scf_yield fs 0 []])]] # post)),
                     nextId := ifFresh (ifReplacement (ir rw) i ts fs) (nextId rw) n,
                     ip := InsertBefore i\<rparr>)
          else failure)"
  using assms by (rule replaceIfYield_result)

text \<open>On \<open>if %c { yield 9, %v } else { yield 9, %v }\<close> both results are replaced, by 9 and \<open>%v\<close>.\<close>

theorem ReplaceIfYieldWithConditionOrValue_per_position_witness:
  "ReplaceIfYieldWithConditionOrValue same_yield_example 1 = success same_yield_replaced"
  using ReplaceIfYieldWithConditionOrValue_per_position[OF same_yield_root same_yield_ops same_yield_bound
          same_yield_lens same_yield_lens same_yield_ssa same_yield_known]
  by (rule same_yield_reading)

section \<open>Properties: edits that leave a part of the tree alone\<close>

lemma map_list_ident:
  assumes "\<And>z. z \<in> set (ops_of_list xs) \<Longrightarrow> f z = z"
      and "\<And>y. y \<in> set (blocks_of_list xs) \<Longrightarrow> g y = y"
  shows "map (map_op f g) xs = xs"
proof (rule map_idI)
  fix x assume "x \<in> set xs"
  then have "set (ops_of_op x) \<subseteq> set (ops_of_list xs)" "set (blocks_of_op x) \<subseteq> set (blocks_of_list xs)"
    by (auto simp: ops_of_list_def blocks_of_list_def)
  then show "map_op f g x = x"
    using assms by (intro map_ident_aux(1)) auto
qed

lemma map_regions_ident:
  assumes "\<And>z. z \<in> set (ops_of_regions rs) \<Longrightarrow> f z = z"
      and "\<And>y. y \<in> set (blocks_of_regions rs) \<Longrightarrow> g y = y"
  shows "map (map (map_block f g)) rs = rs"
proof (intro map_idI)
  fix r y assume "r \<in> set rs" "y \<in> set r"
  then have "set (ops_of_block y) \<subseteq> set (ops_of_regions rs)"
            "set (blocks_of_block y) \<subseteq> set (blocks_of_regions rs)"
    by (auto simp: ops_of_regions_def blocks_of_regions_def)
  then show "map_block f g y = y"
    using assms by (intro map_ident_aux(2)) auto
qed

lemma block_ops_in_list:
  assumes "y \<in> set (blocks_of_list xs)"
  shows "set (block_ops y) \<subseteq> set (ops_of_list xs)"
proof -
  obtain x where "x \<in> set xs" "y \<in> set (blocks_of_op x)"
    using assms by (auto simp: blocks_of_list_def)
  then show ?thesis
    using block_ops_below_aux(1)[of y x] by (auto simp: ops_of_list_def)
qed

lemma block_ops_in_regions:
  assumes "y \<in> set (blocks_of_regions rs)"
  shows "set (block_ops y) \<subseteq> set (ops_of_regions rs)"
proof -
  obtain r w where "r \<in> set rs" "w \<in> set r" "y \<in> set (blocks_of_block w)"
    using assms by (auto simp: blocks_of_regions_def)
  then show ?thesis
    using block_ops_below_aux(2)[of y w] by (auto simp: ops_of_regions_def)
qed

lemma regions_in_list:
  assumes "z \<in> set (ops_of_list xs)" "r \<in> set (getRegions z)"
  shows "set r \<subseteq> set (blocks_of_list xs)"
proof -
  obtain x where "x \<in> set xs" "z \<in> set (ops_of_op x)"
    using assms(1) by (auto simp: ops_of_list_def)
  then show ?thesis
    using regions_below_aux(1)[of z x r] assms(2) by (auto simp: blocks_of_list_def)
qed

lemma regions_in_regions:
  assumes "z \<in> set (ops_of_regions rs)" "r \<in> set (getRegions z)"
  shows "set r \<subseteq> set (blocks_of_regions rs)"
proof -
  obtain q w where "q \<in> set rs" "w \<in> set q" "z \<in> set (ops_of_block w)"
    using assms(1) by (auto simp: ops_of_regions_def)
  then show ?thesis
    using regions_below_aux(2)[of z w r] assms(2) by (auto simp: blocks_of_regions_def)
qed

text \<open>Splicing in front of an operation and removing an operation.\<close>

lemma splice_absent:
  "t \<notin> op_ids xs \<Longrightarrow> concat (map (\<lambda>y. if op_id y = t then new @ [y] else [y]) xs) = xs"
  by (rule splice_list_absent) (use op_id_in_op_ids in blast)

lemma filter_op_absent: "t \<notin> op_ids xs \<Longrightarrow> filter (\<lambda>y. op_id y \<noteq> t) xs = xs"
  by (intro filter_True ballI) (use op_id_in_op_ids in blast)

lemma spliceBefore_absent_regions:
  assumes "t \<notin> op_id ` set (ops_of_regions rs)"
  shows "map (map (map_block id (spliceBefore t new))) rs = rs"
proof (rule map_regions_ident)
  fix y assume "y \<in> set (blocks_of_regions rs)"
  then have "\<And>z. z \<in> set (block_ops y) \<Longrightarrow> op_id z \<noteq> t"
    using block_ops_in_regions assms by blast
  then show "spliceBefore t new y = y"
    by (simp add: spliceBefore_def splice_list_absent)
qed simp

lemma removeOp_absent_regions:
  assumes "t \<notin> op_id ` set (ops_of_regions rs)"
  shows "map (map (map_block id (removeOp t))) rs = rs"
proof (rule map_regions_ident)
  fix y assume "y \<in> set (blocks_of_regions rs)"
  then have "\<And>z. z \<in> set (block_ops y) \<Longrightarrow> op_id z \<noteq> t"
    using block_ops_in_regions assms by blast
  then show "removeOp t y = y"
    by (simp add: removeOp_def)
qed simp

text \<open>Appending to a block.\<close>

lemma spliceAtEnd_absent_list:
  assumes "c \<notin> block_ids xs"
  shows "map (map_op id (spliceAtEnd c new)) xs = xs"
proof (rule map_list_ident)
  fix y assume "y \<in> set (blocks_of_list xs)"
  then show "spliceAtEnd c new y = y"
    using assms by (auto simp: spliceAtEnd_def block_ids_list)
qed simp

lemma spliceAtEnd_absent_regions:
  assumes "c \<notin> block_id ` set (blocks_of_regions rs)"
  shows "map (map (map_block id (spliceAtEnd c new))) rs = rs"
proof (rule map_regions_ident)
  fix y assume "y \<in> set (blocks_of_regions rs)"
  then show "spliceAtEnd c new y = y"
    using assms by (auto simp: spliceAtEnd_def)
qed simp

text \<open>Edits of one operation, found by its identifier.\<close>

lemma appendBlock_absent_list:
  assumes "i \<notin> op_ids xs"
  shows "map (map_op (appendBlock i r y) id) xs = xs"
proof (rule map_list_ident)
  fix z assume "z \<in> set (ops_of_list xs)"
  then show "appendBlock i r y z = z"
    using assms by (auto simp: appendBlock_def op_ids_list)
qed simp

lemma appendBlock_absent_regions:
  assumes "i \<notin> op_id ` set (ops_of_regions rs)"
  shows "map (map (map_block (appendBlock i r y) id)) rs = rs"
proof (rule map_regions_ident)
  fix z assume "z \<in> set (ops_of_regions rs)"
  then show "appendBlock i r y z = z"
    using assms by (auto simp: appendBlock_def)
qed simp

lemma setRegion_absent_list:
  assumes "i \<notin> op_ids xs"
  shows "map (map_op (setRegion i r blocks) id) xs = xs"
proof (rule map_list_ident)
  fix z assume "z \<in> set (ops_of_list xs)"
  then show "setRegion i r blocks z = z"
    using assms by (auto simp: setRegion_def op_ids_list)
qed simp

lemma setRegion_absent_regions:
  assumes "i \<notin> op_id ` set (ops_of_regions rs)"
  shows "map (map (map_block (setRegion i r blocks) id)) rs = rs"
proof (rule map_regions_ident)
  fix z assume "z \<in> set (ops_of_regions rs)"
  then show "setRegion i r blocks z = z"
    using assms by (auto simp: setRegion_def)
qed simp

text \<open>Looking up an operation or a block.\<close>

lemma find_op_absent: "t \<notin> op_ids xs \<Longrightarrow> find (\<lambda>z. op_id z = t) (ops_of_list xs) = None"
  by (rule find_absent) (use in_op_ids in blast)

lemma find_block_list_skip:
  assumes "c \<notin> block_ids xs"
  shows "find (\<lambda>z. block_id z = c) (blocks_of_list xs @ rest) = find (\<lambda>z. block_id z = c) rest"
  by (rule find_block_skip) (use assms in \<open>simp add: block_ids_list\<close>)

lemma find_block_list_absent:
  "c \<notin> block_ids xs \<Longrightarrow> find (\<lambda>z. block_id z = c) (blocks_of_list xs) = None"
  by (rule find_absent) (auto simp: block_ids_list)

lemmas lookup_simps = lookupOp_Block lookupBlock_def find_op_skip find_op_absent
  find_block_list_skip find_block_list_absent

lemmas absent_simps = spliceBefore_absent_list removeOp_absent_list removeBlock_absent_list
  spliceAtEnd_absent_list appendBlock_absent_list setRegion_absent_list
  splice_absent filter_op_absent

section \<open>RemoveLoopInvariantArgsFromBeforeBlock\<close>

lemma isLoopInvariantArg_reading:
  assumes "k < na" "\<forall>q. ys ! k = BlockArgument ab q \<longrightarrow> q < length cargs"
  shows "isLoopInvariantArg (Block bb na bops) (Block ab ma aops) cargs k (inits ! k) (ys ! k) =
         Ok (invariantAt bb ab cargs inits ys k)"
  using assms by (auto simp: isLoopInvariantArg_def invariantAt_def split: val.splits)

lemma canSimplify_reading:
  assumes inv: "\<And>k. k < na \<Longrightarrow> isLoopInvariantArg B A cs k (inits ! k) (ys ! k) = Ok (p k)"
      and len: "length inits = na" "length ys = na"
  shows "idx \<le> na \<Longrightarrow>
         canSimplify B A cs idx (drop idx inits) (drop idx ys) = Ok (\<exists>k. idx \<le> k \<and> k < na \<and> p k)"
proof (induction "na - idx" arbitrary: idx)
  case 0
  then show ?case using len by simp
next
  case (Suc d)
  then have lt: "idx < na" by simp
  have dr: "drop idx inits = inits ! idx # drop (Suc idx) inits"
           "drop idx ys = ys ! idx # drop (Suc idx) ys"
    using lt len by (simp_all add: Cons_nth_drop_Suc)
  have IH: "canSimplify B A cs (Suc idx) (drop (Suc idx) inits) (drop (Suc idx) ys) =
            Ok (\<exists>k. Suc idx \<le> k \<and> k < na \<and> p k)"
    using Suc lt by (intro Suc.hyps(1)) simp_all
  have "(\<exists>k. idx \<le> k \<and> k < na \<and> p k) = (p idx \<or> (\<exists>k. Suc idx \<le> k \<and> k < na \<and> p k))"
    using lt by (metis Suc_leI le_eq_less_or_eq Suc_leD order_refl)
  then show ?case
    unfolding dr by (simp add: inv[OF lt] IH bindA_def)
qed

lemma keptArgs_reading:
  assumes inv: "\<And>k. k < na \<Longrightarrow> isLoopInvariantArg B A cs k (inits ! k) (ys ! k) = Ok (p k)"
      and len: "length inits = na" "length ys = na"
  shows "idx \<le> na \<Longrightarrow>
         keptArgs B A cs idx (drop idx inits) (drop idx ys) =
           Ok (map (nth inits) (filter (\<lambda>k. \<not> p k) [idx..<na]),
               map (nth ys) (filter (\<lambda>k. \<not> p k) [idx..<na]),
               map (\<lambda>k. (k, inits ! k)) (filter p [idx..<na]))"
proof (induction "na - idx" arbitrary: idx)
  case 0
  then show ?case using len by simp
next
  case (Suc d)
  then have lt: "idx < na" by simp
  have dr: "drop idx inits = inits ! idx # drop (Suc idx) inits"
           "drop idx ys = ys ! idx # drop (Suc idx) ys"
    using lt len by (simp_all add: Cons_nth_drop_Suc)
  have IH: "keptArgs B A cs (Suc idx) (drop (Suc idx) inits) (drop (Suc idx) ys) =
           Ok (map (nth inits) (filter (\<lambda>k. \<not> p k) [Suc idx..<na]),
               map (nth ys) (filter (\<lambda>k. \<not> p k) [Suc idx..<na]),
               map (\<lambda>k. (k, inits ! k)) (filter p [Suc idx..<na]))"
    using Suc lt by (intro Suc.hyps(1)) simp_all
  have up: "[idx..<na] = idx # [Suc idx..<na]"
    using lt by (rule upt_conv_Cons)
  show ?case
    unfolding dr up by (simp add: inv[OF lt] IH bindA_def)
qed

lemma map_of_filter_upt:
  "map_of (map (\<lambda>k. (k, f k)) (filter p xs)) i = (if i \<in> set xs \<and> p i then Some (f i) else None)"
  by (induction xs) auto

lemma newBeforeBlockArgs_reading:
  assumes m: "m = map (\<lambda>k. (k, inits ! k)) (filter p [0..<na])"
  shows "i + n \<le> na \<Longrightarrow> j + length (filter (\<lambda>k. \<not> p k) [i..<i + n]) \<le> numNew \<Longrightarrow>
         newBeforeBlockArgs m nb numNew i j n =
           Ok (map (\<lambda>k. if p k then inits ! k
                         else BlockArgument nb (j + length (filter (\<lambda>k'. \<not> p k') [i..<k])))
                 [i..<i + n])"
proof (induction n arbitrary: i j)
  case 0
  then show ?case by simp
next
  case (Suc n)
  have lt: "i < na" using Suc.prems(1) by simp
  have look: "map_of m i = (if p i then Some (inits ! i) else None)"
    unfolding m map_of_filter_upt using lt by simp
  have up: "[i..<i + Suc n] = i # [Suc i..<Suc i + n]"
    by (simp add: upt_conv_Cons)
  have shift: "[i..<k] = i # [Suc i..<k]" if "k \<in> set [Suc i..<Suc i + n]" for k
  proof -
    have "i < k" using that by (simp only: set_upt atLeastLessThan_iff) simp
    then show ?thesis by (rule upt_conv_Cons)
  qed
  show ?case
  proof (cases "p i")
    case True
    have IH: "newBeforeBlockArgs m nb numNew (Suc i) j n =
           Ok (map (\<lambda>k. if p k then inits ! k
                         else BlockArgument nb (j + length (filter (\<lambda>k'. \<not> p k') [Suc i..<k])))
                 [Suc i..<Suc i + n])"
      using Suc.prems True unfolding up by (intro Suc.IH) simp_all
    have "map (\<lambda>k. if p k then inits ! k
                         else BlockArgument nb (j + length (filter (\<lambda>k'. \<not> p k') [Suc i..<k])))
                 [Suc i..<Suc i + n] =
          map (\<lambda>k. if p k then inits ! k
                         else BlockArgument nb (j + length (filter (\<lambda>k'. \<not> p k') [i..<k])))
                 [Suc i..<Suc i + n]"
      using True by (intro map_cong refl) (simp add: shift del: upt_Suc)
    then show ?thesis
      unfolding up using True by (simp add: look IH bindA_def)
  next
    case False
    have IH: "newBeforeBlockArgs m nb numNew (Suc i) (Suc j) n =
           Ok (map (\<lambda>k. if p k then inits ! k
                         else BlockArgument nb (Suc j + length (filter (\<lambda>k'. \<not> p k') [Suc i..<k])))
                 [Suc i..<Suc i + n])"
      using Suc.prems False unfolding up by (intro Suc.IH) simp_all
    have "map (\<lambda>k. if p k then inits ! k
                         else BlockArgument nb (Suc j + length (filter (\<lambda>k'. \<not> p k') [Suc i..<k])))
                 [Suc i..<Suc i + n] =
          map (\<lambda>k. if p k then inits ! k
                         else BlockArgument nb (j + length (filter (\<lambda>k'. \<not> p k') [i..<k])))
                 [Suc i..<Suc i + n]"
      using False by (intro map_cong refl) (simp add: shift del: upt_Suc)
    moreover have "j < numNew"
      using Suc.prems(2) False unfolding up by simp
    ultimately show ?thesis
      unfolding up using False by (simp add: look IH bindA_def)
  qed
qed

lemma above_bound:
  fixes N :: nat
  assumes "\<And>j. j \<in> S \<Longrightarrow> j < N"
  shows "N \<notin> S" "Suc N \<notin> S" "Suc (Suc N) \<notin> S" "Suc (Suc (Suc N)) \<notin> S"
  using assms by fastforce+

lemma removeLoopInvariantArgs_result:
  assumes root: "ir rw = Block b a (pre @ Op i scf_while inits n
                    [[Block bb na (bbody @ [Op ci scf_condition (c # cargs) 0 []])],
                     [Block ab ma (abody @ [Op yi scf_yield ys 0 []])]] # post)"
      and ipt: "ip rw = InsertBefore i"
      and ops: "distinct (map op_id (ops_of_block (ir rw)))"
      and blocks: "distinct (map block_id (blocks_of_block (ir rw)))"
      and bound: "\<forall>j \<in> op_id ` set (ops_of_block (ir rw)). j < nextId rw"
      and bbound: "\<forall>j \<in> block_id ` set (blocks_of_block (ir rw)). j < nextId rw"
      and lens: "length inits = na" "length ys = na"
      and wf: "\<forall>q. BlockArgument ab q \<in> set ys \<longrightarrow> q < length cargs"
      and ssa: "\<forall>k. BlockArgument bb k \<notin> set inits"
  shows "RemoveLoopInvariantArgsFromBeforeBlock rw i =
     (if \<exists>k<na. invariantAt bb ab cargs inits ys k
      then success
        (rw\<lparr>ir := Block b a
               (map (substOp
                      (substitute (map (OpResult i) [0..<n]) (map (OpResult (Suc (nextId rw))) [0..<n]) \<circ>
                       substitute (map (BlockArgument bb) [0..<na])
                         (map (beforeArgValue (invariantAt bb ab cargs inits ys) inits (Suc (Suc (nextId rw))))
                            [0..<na])))
                  (pre @
                   Op (Suc (nextId rw)) scf_while
                     (map (nth inits) (filter (\<lambda>k. \<not> invariantAt bb ab cargs inits ys k) [0..<na])) n
                     [[Block (Suc (Suc (nextId rw)))
                         (length (filter (\<lambda>k. \<not> invariantAt bb ab cargs inits ys k) [0..<na]))
                         (bbody @ [Op ci scf_condition (c # cargs) 0 []])],
                      [Block ab ma
                         (abody @
                          [Op (nextId rw) scf_yield
                             (map (nth ys) (filter (\<lambda>k. \<not> invariantAt bb ab cargs inits ys k) [0..<na]))
                             0 []])]] #
                   post)),
            nextId := Suc (Suc (Suc (nextId rw))),
            ip := InsertAtEnd (Suc (Suc (nextId rw)))\<rparr>)
      else failure)"
proof -
  define N where "N = nextId rw"
  define p where "p = invariantAt bb ab cargs inits ys"
  define K where "K = filter (\<lambda>k. \<not> p k) [0..<na]"
  define C where "C = Op ci scf_condition (c # cargs) 0 []"
  define Y where "Y = Op yi scf_yield ys 0 []"
  define Yn where "Yn = Op N scf_yield (map (nth ys) K) 0 []"
  define BB where "BB = Block bb na (bbody @ [C])"
  define AB where "AB = Block ab ma (abody @ [Y])"
  define W where "W = Op i scf_while inits n [[BB], [AB]]"
  define args where "args = map (beforeArgValue p inits (Suc (Suc N))) [0..<na]"
  define \<sigma> where "\<sigma> = substitute (map (BlockArgument bb) [0..<na]) args"
  note shape = W_def BB_def AB_def C_def Y_def
  have root': "ir rw = Block b a (pre @ W # post)"
    unfolding shape by (rule root)
  \<comment> \<open>identifiers\<close>
  have oids: "i \<notin> op_ids pre" "i \<notin> op_ids post" "i \<notin> op_ids bbody" "i \<notin> op_ids abody"
             "yi \<notin> op_ids pre" "yi \<notin> op_ids post" "yi \<notin> op_ids bbody" "yi \<notin> op_ids abody"
             "ci \<notin> op_ids pre" "ci \<notin> op_ids post" "ci \<notin> op_ids bbody" "ci \<notin> op_ids abody"
             "i \<noteq> yi" "i \<noteq> ci" "yi \<noteq> ci" "yi \<noteq> i" "ci \<noteq> i" "ci \<noteq> yi"
    using ops unfolding root by (auto simp: op_ids_list)
  have obound: "\<And>j. j \<in> op_ids pre \<Longrightarrow> j < N" "\<And>j. j \<in> op_ids post \<Longrightarrow> j < N"
               "\<And>j. j \<in> op_ids bbody \<Longrightarrow> j < N" "\<And>j. j \<in> op_ids abody \<Longrightarrow> j < N"
               "i < N" "yi < N" "ci < N"
    using bound unfolding root N_def by (auto simp: op_ids_list)
  have fresh: "N \<notin> op_ids pre" "N \<notin> op_ids post" "N \<notin> op_ids bbody" "N \<notin> op_ids abody"
              "Suc N \<notin> op_ids pre" "Suc N \<notin> op_ids post" "Suc N \<notin> op_ids bbody" "Suc N \<notin> op_ids abody"
              "N \<noteq> i" "N \<noteq> yi" "N \<noteq> ci" "Suc N \<noteq> i" "Suc N \<noteq> yi" "Suc N \<noteq> ci"
              "i \<noteq> N" "yi \<noteq> N" "ci \<noteq> N" "i \<noteq> Suc N" "yi \<noteq> Suc N" "ci \<noteq> Suc N"
    using obound(5-7) above_bound[of "op_ids pre" N, OF obound(1)] above_bound[of "op_ids post" N, OF obound(2)]
      above_bound[of "op_ids bbody" N, OF obound(3)] above_bound[of "op_ids abody" N, OF obound(4)]
    by simp_all
  have bids: "bb \<notin> block_ids pre" "bb \<notin> block_ids post" "bb \<notin> block_ids bbody" "bb \<notin> block_ids abody"
             "ab \<notin> block_ids pre" "ab \<notin> block_ids post" "ab \<notin> block_ids bbody" "ab \<notin> block_ids abody"
             "bb \<noteq> ab" "ab \<noteq> bb" "b \<noteq> bb" "b \<noteq> ab" "bb \<noteq> b" "ab \<noteq> b"
    using blocks unfolding root by (auto simp: block_ids_list)
  have bbnd: "\<And>j. j \<in> block_ids pre \<Longrightarrow> j < N" "\<And>j. j \<in> block_ids post \<Longrightarrow> j < N"
             "\<And>j. j \<in> block_ids bbody \<Longrightarrow> j < N" "\<And>j. j \<in> block_ids abody \<Longrightarrow> j < N"
             "b < N" "bb < N" "ab < N"
    using bbound unfolding root N_def by (auto simp: block_ids_list)
  have bfresh: "Suc (Suc N) \<notin> block_ids pre" "Suc (Suc N) \<notin> block_ids post"
               "Suc (Suc N) \<notin> block_ids bbody" "Suc (Suc N) \<notin> block_ids abody"
               "Suc (Suc N) \<noteq> b" "Suc (Suc N) \<noteq> bb" "Suc (Suc N) \<noteq> ab"
               "b \<noteq> Suc (Suc N)" "bb \<noteq> Suc (Suc N)" "ab \<noteq> Suc (Suc N)"
    using bbnd(5-7) above_bound[of "block_ids pre" N, OF bbnd(1)] above_bound[of "block_ids post" N, OF bbnd(2)]
      above_bound[of "block_ids bbody" N, OF bbnd(3)] above_bound[of "block_ids abody" N, OF bbnd(4)]
    by simp_all
  note ids = oids fresh bids bfresh
  \<comment> \<open>the match\<close>
  have look: "lookupOp (ir rw) i = Some W"
    unfolding root' using oids lookupOp_at[of W pre b a post] by (simp add: W_def)
  have parts: "getAfterBody W = Ok AB" "getBeforeBody W = Ok BB" "getConditionOp W = Ok C"
              "getTerminator AB = Ok Y" "getArgs C = cargs" "getOperands W = inits"
              "getOperands Y = ys" "op_name W = scf_while" "getNumResults W = n"
              "op_id Y = yi" "getNumArguments BB = na" "block_id BB = bb"
    by (simp_all add: shape getAfterBody_def getBeforeBody_def getConditionOp_def getTerminator_def
          isTerminator_def getArgs_def bindA_def)
  have inv: "isLoopInvariantArg BB AB cargs k (inits ! k) (ys ! k) = Ok (p k)" if "k < na" for k
  proof -
    have "ys ! k \<in> set ys" using that lens by simp
    then have "\<forall>q. ys ! k = BlockArgument ab q \<longrightarrow> q < length cargs"
      using wf by metis
    then show ?thesis
      unfolding BB_def AB_def p_def using that by (intro isLoopInvariantArg_reading)
  qed
  have can: "canSimplify BB AB cargs 0 inits ys = Ok (\<exists>k<na. p k)"
    using canSimplify_reading[where na=na and B=BB and A=AB and cs=cargs and inits=inits and ys=ys
            and p=p and idx=0, OF inv lens] by simp
  have kept: "keptArgs BB AB cargs 0 inits ys =
              Ok (map (nth inits) K, map (nth ys) K, map (\<lambda>k. (k, inits ! k)) (filter p [0..<na]))"
    using keptArgs_reading[where na=na and B=BB and A=AB and cs=cargs and inits=inits and ys=ys
            and p=p and idx=0, OF inv lens] by (simp add: K_def)
  have nargs: "newBeforeBlockArgs (map (\<lambda>k. (k, inits ! k)) (filter p [0..<na])) (Suc (Suc N))
                 (length K) 0 0 na = Ok args"
    using newBeforeBlockArgs_reading[OF refl, where i=0 and n=na and na=na and p=p and j=0
            and numNew="length K" and inits=inits and nb="Suc (Suc N)"]
    by (simp add: args_def beforeArgValue_def K_def)
  \<comment> \<open>the rewrite\<close>
  let ?nI = "map (nth inits) K"
  let ?nY = "map (nth ys) K"
  let ?C = "Op ci scf_condition (c # cargs) 0 []"
  let ?Y = "Op yi scf_yield ys 0 []"
  let ?Yn = "Op N scf_yield ?nY 0 []"
  let ?BB = "Block bb na (bbody @ [?C])"
  let ?R1 = "Block b a (pre @ Op i scf_while inits n [[?BB], [Block ab ma (abody @ [?Yn, ?Y])]] # post)"
  let ?W2 = "Op i scf_while inits n [[?BB], [Block ab ma (abody @ [?Yn])]]"
  let ?R2 = "Block b a (pre @ ?W2 # post)"
  let ?R3 = "Block b a (pre @ Op (Suc N) scf_while ?nI n [[], []] # ?W2 # post)"
  let ?R4 = "Block b a (pre @ Op (Suc N) scf_while ?nI n [[Block (Suc (Suc N)) (length K) []], []] # ?W2 # post)"
  let ?R5 = "Block b a (pre @ Op (Suc N) scf_while ?nI n [[Block (Suc (Suc N)) (length K) (bbody @ [?C])], []] #
                Op i scf_while inits n [[], [Block ab ma (abody @ [?Yn])]] # post)"
  let ?Wn = "Op (Suc N) scf_while ?nI n
               [[Block (Suc (Suc N)) (length K) (bbody @ [?C])], [Block ab ma (abody @ [?Yn])]]"
  let ?R6 = "Block b a (pre @ ?Wn # Op i scf_while inits n [[], []] # post)"
  have s1: "createOp scf_yield ?nY 0 [] (rw\<lparr>ip := InsertBefore yi\<rparr>) =
            (N, rw\<lparr>ir := ?R1, nextId := Suc N, ip := InsertBefore yi\<rparr>)"
    by (simp add: createOp_def insertOps_def root spliceBefore_def absent_simps ids N_def)
  have s2: "replaceOp yi [] (rw\<lparr>ir := ?R1, nextId := Suc N, ip := InsertBefore yi\<rparr>) =
            Ok (rw\<lparr>ir := ?R2, nextId := Suc N, ip := InsertBefore yi\<rparr>)"
    by (simp add: replaceOp_def lookup_simps getResults_def eraseOp_def removeOp_def absent_simps ids)
  have s3: "createOp scf_while ?nI n [[], []] (rw\<lparr>ir := ?R2, nextId := Suc N, ip := InsertBefore i\<rparr>) =
            (Suc N, rw\<lparr>ir := ?R3, nextId := Suc (Suc N), ip := InsertBefore i\<rparr>)"
    by (simp add: createOp_def insertOps_def ipt spliceBefore_def absent_simps ids)
  have s4: "createBlock (Suc N) 0 (length K) (rw\<lparr>ir := ?R3, nextId := Suc (Suc N), ip := InsertBefore i\<rparr>) =
            (Suc (Suc N), rw\<lparr>ir := ?R4, nextId := Suc (Suc (Suc N)), ip := InsertAtEnd (Suc (Suc N))\<rparr>)"
    by (simp add: createBlock_def appendBlock_def absent_simps ids)
  have largs: "length args = na"
    by (simp add: args_def)
  have "v \<notin> set (map (BlockArgument bb) [0..<na])" if v: "v \<in> set args" for v
  proof -
    obtain k where k: "k < na" "v = beforeArgValue p inits (Suc (Suc N)) k"
      using v by (auto simp: args_def)
    show ?thesis
    proof (cases "p k")
      case True
      then have "v \<in> set inits"
        using k lens by (simp add: beforeArgValue_def)
      then show ?thesis using ssa by auto
    next
      case False
      then show ?thesis
        using k bfresh by (auto simp: beforeArgValue_def)
    qed
  qed
  then have "set args \<inter> set (map (BlockArgument bb) [0..<na]) = {}"
    by blast
  then have seq: "replaceValues (map (BlockArgument bb) [0..<na]) args = \<sigma>"
    unfolding \<sigma>_def by (intro ext replaceValues_substitute) (auto simp: distinct_map inj_on_def)
  have s5: "mergeBlocks bb (Suc (Suc N)) args
              (rw\<lparr>ir := ?R4, nextId := Suc (Suc (Suc N)), ip := InsertAtEnd (Suc (Suc N))\<rparr>) =
            Ok (rw\<lparr>ir := substBlock \<sigma> ?R5, nextId := Suc (Suc (Suc N)), ip := InsertAtEnd (Suc (Suc N))\<rparr>)"
    by (simp add: mergeBlocks_def inlineBlock_def lookup_simps largs getArguments_def
          replaceAllUsesWith_range_ir seq insertOps_def eraseBlock_def removeBlock_def spliceAtEnd_def
          absent_simps ids del: map_map)
  have s6: "inlineRegionBefore i (Suc 0) (Suc N) (Suc 0)
              (rw\<lparr>ir := substBlock \<sigma> ?R5, nextId := Suc (Suc (Suc N)), ip := InsertAtEnd (Suc (Suc N))\<rparr>) =
            Ok (rw\<lparr>ir := substBlock \<sigma> ?R6, nextId := Suc (Suc (Suc N)), ip := InsertAtEnd (Suc (Suc N))\<rparr>)"
    by (simp add: inlineRegionBefore_def lookup_simps setRegion_def absent_simps ids del: map_map)
  let ?res = "substitute (map (OpResult i) [0..<n]) (map (OpResult (Suc N)) [0..<n])"
  have comp: "substOp ?res \<circ> substOp \<sigma> = substOp (?res \<circ> \<sigma>)"
    by (rule ext) (simp add: substOp_substOp)
  have "replaceOp (op_id (substOp \<sigma> (Op i scf_while inits n [[], []]))) (map (OpResult (Suc N)) [0..<n])
          (rw\<lparr>ir := substBlock \<sigma> ?R6, nextId := Suc (Suc (Suc N)), ip := InsertAtEnd (Suc (Suc N))\<rparr>) =
        Ok (rw\<lparr>ir := substBlock \<sigma> ?R6, nextId := Suc (Suc (Suc N)), ip := InsertAtEnd (Suc (Suc N)),
               ir := Block b a
                 (map (substOp (substitute (getResults (substOp \<sigma> (Op i scf_while inits n [[], []])))
                                  (map (OpResult (Suc N)) [0..<n])))
                    (map (substOp \<sigma>) (pre @ [?Wn]) @ map (substOp \<sigma>) post))\<rparr>)"
  proof (rule replaceOp_at)
    show "ir (rw\<lparr>ir := substBlock \<sigma> ?R6, nextId := Suc (Suc (Suc N)), ip := InsertAtEnd (Suc (Suc N))\<rparr>) =
          Block b a (map (substOp \<sigma>) (pre @ [?Wn]) @ substOp \<sigma> (Op i scf_while inits n [[], []]) #
                     map (substOp \<sigma>) post)"
      by simp
    show "op_id (substOp \<sigma> (Op i scf_while inits n [[], []])) \<notin> op_ids (map (substOp \<sigma>) (pre @ [?Wn]))"
      using ids unfolding op_ids_subst by (simp add: op_ids_Cons image_Un op_ids_list[symmetric])
    show "op_id (substOp \<sigma> (Op i scf_while inits n [[], []])) \<notin> op_ids (map (substOp \<sigma>) post)"
      using ids by simp
    show "length (map (OpResult (Suc N)) [0..<n]) = getNumResults (substOp \<sigma> (Op i scf_while inits n [[], []]))"
      by simp
    show "set (map (OpResult (Suc N)) [0..<n]) \<inter> set (getResults (substOp \<sigma> (Op i scf_while inits n [[], []]))) = {}"
      using ids by (auto simp: getResults_def)
  qed
  then have s7: "replaceOp i (map (OpResult (Suc N)) [0..<n])
          (rw\<lparr>ir := substBlock \<sigma> ?R6, nextId := Suc (Suc (Suc N)), ip := InsertAtEnd (Suc (Suc N))\<rparr>) =
        Ok (rw\<lparr>ir := Block b a (map (substOp (?res \<circ> \<sigma>)) (pre @ ?Wn # post)),
               nextId := Suc (Suc (Suc N)), ip := InsertAtEnd (Suc (Suc N))\<rparr>)"
    by (simp add: getResults_def comp substOp_substOp del: substOp_Op)
  show ?thesis
  proof (cases "\<exists>k<na. p k")
    case False
    then show ?thesis
      using look can by (simp add: RemoveLoopInvariantArgsFromBeforeBlock_def parts bindA_def matchResult_def p_def)
  next
    case True
    have "RemoveLoopInvariantArgsFromBeforeBlock rw i =
          success (rw\<lparr>ir := Block b a (map (substOp (?res \<circ> \<sigma>)) (pre @ ?Wn # post)),
               nextId := Suc (Suc (Suc N)), ip := InsertAtEnd (Suc (Suc N))\<rparr>)"
      using look can True
      by (simp add: RemoveLoopInvariantArgsFromBeforeBlock_def parts bindA_def matchResult_def kept
            s1 s2 ipt s3 s4 nargs s5 s6 s7 Let_def del: substBlock_Block substOp_Op)
    then show ?thesis
      using True unfolding p_def[symmetric] K_def[symmetric] N_def[symmetric]
      by (simp add: \<sigma>_def args_def)
  qed
qed


text \<open>The two example programs meet the conditions.\<close>

lemma chained_root:
  "ir chained_example =
     Block 0 1 ([] @
       Op 1 scf_while [BlockArgument 0 0, BlockArgument 0 0] 1
         [[Block 1 2 ([Op 2 (other_op ''cond'') [BlockArgument 1 0, BlockArgument 1 1] 1 []] @
                      [Op 3 scf_condition (OpResult 2 0 # [BlockArgument 1 1]) 0 []])],
          [Block 2 1 ([] @ [Op 4 scf_yield [BlockArgument 2 0, BlockArgument 0 0] 0 []])]] #
       [Op 5 (other_op ''use'') [OpResult 1 0] 0 []])"
  by (simp add: chained_example_def)

lemma chained_wf:
  "ip chained_example = InsertBefore 1"
  "distinct (map op_id (ops_of_block (ir chained_example)))"
  "distinct (map block_id (blocks_of_block (ir chained_example)))"
  "\<forall>j \<in> op_id ` set (ops_of_block (ir chained_example)). j < nextId chained_example"
  "\<forall>j \<in> block_id ` set (blocks_of_block (ir chained_example)). j < nextId chained_example"
  by (simp_all add: chained_example_def)

lemma chained_values:
  "length [BlockArgument 0 0, BlockArgument 0 0] = 2"
  "length [BlockArgument 2 0, BlockArgument 0 0] = 2"
  "\<forall>q. BlockArgument 2 q \<in> set [BlockArgument 2 0, BlockArgument 0 0] \<longrightarrow> q < length [BlockArgument 1 1]"
  "\<forall>k. BlockArgument 1 k \<notin> set [BlockArgument 0 0, BlockArgument 0 0]"
  by simp_all

lemma chained_invariant:
  "\<not> invariantAt 1 2 [BlockArgument 1 1] [BlockArgument 0 0, BlockArgument 0 0]
       [BlockArgument 2 0, BlockArgument 0 0] 0"
  "invariantAt 1 2 [BlockArgument 1 1] [BlockArgument 0 0, BlockArgument 0 0]
       [BlockArgument 2 0, BlockArgument 0 0] (Suc 0)"
  by (simp_all add: invariantAt_def)

lemma chained_reading:
  assumes "R =
     (if \<exists>k<2. invariantAt 1 2 [BlockArgument 1 1] [BlockArgument 0 0, BlockArgument 0 0] [BlockArgument 2 0, BlockArgument 0 0] k
      then success
        (chained_example\<lparr>ir := Block 0 1
               (map (substOp
                      (substitute (map (OpResult 1) [0..<1]) (map (OpResult (Suc (nextId chained_example))) [0..<1]) \<circ>
                       substitute (map (BlockArgument 1) [0..<2])
                         (map (beforeArgValue (invariantAt 1 2 [BlockArgument 1 1] [BlockArgument 0 0, BlockArgument 0 0] [BlockArgument 2 0, BlockArgument 0 0]) [BlockArgument 0 0, BlockArgument 0 0] (Suc (Suc (nextId chained_example))))
                            [0..<2])))
                  ([] @
                   Op (Suc (nextId chained_example)) scf_while
                     (map (nth [BlockArgument 0 0, BlockArgument 0 0]) (filter (\<lambda>k. \<not> invariantAt 1 2 [BlockArgument 1 1] [BlockArgument 0 0, BlockArgument 0 0] [BlockArgument 2 0, BlockArgument 0 0] k) [0..<2])) 1
                     [[Block (Suc (Suc (nextId chained_example)))
                         (length (filter (\<lambda>k. \<not> invariantAt 1 2 [BlockArgument 1 1] [BlockArgument 0 0, BlockArgument 0 0] [BlockArgument 2 0, BlockArgument 0 0] k) [0..<2]))
                         ([Op 2 (other_op ''cond'') [BlockArgument 1 0, BlockArgument 1 1] 1 []] @ [Op 3 scf_condition ((OpResult 2 0) # [BlockArgument 1 1]) 0 []])],
                      [Block 2 1
                         ([] @
                          [Op (nextId chained_example) scf_yield
                             (map (nth [BlockArgument 2 0, BlockArgument 0 0]) (filter (\<lambda>k. \<not> invariantAt 1 2 [BlockArgument 1 1] [BlockArgument 0 0, BlockArgument 0 0] [BlockArgument 2 0, BlockArgument 0 0] k) [0..<2]))
                             0 []])]] #
                   [Op 5 (other_op ''use'') [OpResult 1 0] 0 []])),
            nextId := Suc (Suc (Suc (nextId chained_example))),
            ip := InsertAtEnd (Suc (Suc (nextId chained_example)))\<rparr>)
      else failure)"
  shows "R = success chained_once"
proof -
  define p where "p = invariantAt 1 2 [BlockArgument 1 1] [BlockArgument 0 0, BlockArgument 0 0]
                        [BlockArgument 2 0, BlockArgument 0 0]"
  have r: "\<not> p 0" "p (Suc 0)"
    by (simp_all add: p_def invariantAt_def)
  have two: "(2::nat) = Suc (Suc 0)" by simp
  have ex: "\<exists>k<2. p k"
    using r(2) by (intro exI[of _ "Suc 0"]) simp
  have K: "filter (\<lambda>k. \<not> p k) [0..<2] = [0]"
    unfolding two using r by simp
  have args: "map (beforeArgValue p [BlockArgument 0 0, BlockArgument 0 0] 8) [0..<2] =
              [BlockArgument 8 0, BlockArgument 0 0]"
    unfolding two using r by (simp add: beforeArgValue_def)
  have s: "substitute (map (OpResult 1) [0..<1]) (map (OpResult 7) [0..<1]) \<circ>
           substitute (map (BlockArgument 1) [0..<2]) [BlockArgument 8 0, BlockArgument 0 0] =
           (\<lambda>v. if v = BlockArgument 1 0 then BlockArgument 8 0
                else if v = BlockArgument 1 1 then BlockArgument 0 0
                else if v = OpResult 1 0 then OpResult 7 0 else v)"
    unfolding two by (rule ext) (simp add: substitute_def)
  have "R = success (chained_example
          \<lparr>ir := Block 0 1
             (map (substOp (substitute (map (OpResult 1) [0..<1]) (map (OpResult 7) [0..<1]) \<circ>
                            substitute (map (BlockArgument 1) [0..<2]) [BlockArgument 8 0, BlockArgument 0 0]))
                [Op 7 scf_while [BlockArgument 0 0] 1
                   [[Block 8 1 [Op 2 (other_op ''cond'') [BlockArgument 1 0, BlockArgument 1 1] 1 [],
                                Op 3 scf_condition [OpResult 2 0, BlockArgument 1 1] 0 []]],
                    [Block 2 1 [Op 6 scf_yield [BlockArgument 2 0] 0 []]]],
                 Op 5 (other_op ''use'') [OpResult 1 0] 0 []]),
            nextId := 9, ip := InsertAtEnd 8\<rparr>)"
    using assms ex K args
    unfolding p_def[symmetric] by (simp add: chained_example_def)
  then show ?thesis
    unfolding s by (simp add: chained_example_def chained_once_def)
qed

lemma same_pair_root:
  "ir same_pair_example =
     Block 0 1 ([] @
       Op 1 scf_while [BlockArgument 0 0, BlockArgument 0 0] 2
         [[Block 1 2 ([Op 2 (other_op ''cond'') [BlockArgument 1 0, BlockArgument 1 1] 1 []] @
                      [Op 3 scf_condition (OpResult 2 0 # [BlockArgument 1 0, BlockArgument 1 1]) 0 []])],
          [Block 2 2 ([Op 4 (other_op ''next'') [BlockArgument 2 0] 1 []] @
                      [Op 5 scf_yield [OpResult 4 0, OpResult 4 0] 0 []])]] #
       [Op 6 (other_op ''use'') [OpResult 1 0, OpResult 1 1] 0 []])"
  by (simp add: same_pair_example_def)

lemma same_pair_wf:
  "ip same_pair_example = InsertBefore 1"
  "distinct (map op_id (ops_of_block (ir same_pair_example)))"
  "distinct (map block_id (blocks_of_block (ir same_pair_example)))"
  "\<forall>j \<in> op_id ` set (ops_of_block (ir same_pair_example)). j < nextId same_pair_example"
  "\<forall>j \<in> block_id ` set (blocks_of_block (ir same_pair_example)). j < nextId same_pair_example"
  by (simp_all add: same_pair_example_def)

lemma same_pair_values:
  "length [BlockArgument 0 0, BlockArgument 0 0] = 2"
  "length [OpResult 4 0, OpResult 4 0] = 2"
  "\<forall>q. BlockArgument 2 q \<in> set [OpResult 4 0, OpResult 4 0] \<longrightarrow> q < length [BlockArgument 1 0, BlockArgument 1 1]"
  "\<forall>k. BlockArgument 1 k \<notin> set [BlockArgument 0 0, BlockArgument 0 0]"
  by simp_all

lemma same_pair_reading:
  assumes "R =
     (if \<exists>k<2. invariantAt 1 2 [BlockArgument 1 0, BlockArgument 1 1] [BlockArgument 0 0, BlockArgument 0 0]
                  [OpResult 4 0, OpResult 4 0] k
      then S else failure)"
  shows "R = failure"
proof -
  have "\<not> invariantAt 1 2 [BlockArgument 1 0, BlockArgument 1 1] [BlockArgument 0 0, BlockArgument 0 0]
            [OpResult 4 0, OpResult 4 0] k" if "k < 2" for k
  proof -
    have "k = 0 \<or> k = Suc 0" using that by auto
    then show ?thesis by (auto simp: invariantAt_def)
  qed
  then have "\<not> (\<exists>k<2. invariantAt 1 2 [BlockArgument 1 0, BlockArgument 1 1]
                 [BlockArgument 0 0, BlockArgument 0 0] [OpResult 4 0, OpResult 4 0] k)"
    by blast
  then show ?thesis unfolding assms by (rule if_not_P)
qed

text \<open>
  C8, as stated, fails. In \<open>same_pair_example\<close> the two iteration arguments have the same
  initial value and the same yielded value: the pattern fails, no argument is eliminated.
  In \<open>chained_example\<close> the argument \<open>a0\<close> is invariant because it forwards the invariant
  argument \<open>a1\<close>: one application removes \<open>a1\<close> only, the new scf.while still has the
  iteration argument \<open>a0\<close>.
\<close>

theorem pair_memo_counterexample:
  "RemoveLoopInvariantArgsFromBeforeBlock same_pair_example 1 = failure
   \<and> RemoveLoopInvariantArgsFromBeforeBlock chained_example 1 = success chained_once
   \<and> lookupOp (ir chained_once) 7 =
       Some (Op 7 scf_while [BlockArgument 0 0] 1
               [[Block 8 1 [Op 2 (other_op ''cond'') [BlockArgument 8 0, BlockArgument 0 0] 1 [],
                            Op 3 scf_condition [OpResult 2 0, BlockArgument 0 0] 0 []]],
                [Block 2 1 [Op 6 scf_yield [BlockArgument 2 0] 0 []]]])"
proof -
  have a: "RemoveLoopInvariantArgsFromBeforeBlock same_pair_example 1 = failure"
    using removeLoopInvariantArgs_result[OF same_pair_root same_pair_wf same_pair_values]
    by (rule same_pair_reading)
  have b: "RemoveLoopInvariantArgsFromBeforeBlock chained_example 1 = success chained_once"
    using removeLoopInvariantArgs_result[OF chained_root chained_wf chained_values]
    by (rule chained_reading)
  have c: "lookupOp (ir chained_once) 7 =
       Some (Op 7 scf_while [BlockArgument 0 0] 1
               [[Block 8 1 [Op 2 (other_op ''cond'') [BlockArgument 8 0, BlockArgument 0 0] 1 [],
                            Op 3 scf_condition [OpResult 2 0, BlockArgument 0 0] 0 []]],
                [Block 2 1 [Op 6 scf_yield [BlockArgument 2 0] 0 []]]])"
    by (simp add: chained_once_def lookupOp_def)
  show ?thesis
    using a b c by simp
qed

text \<open>
  C8, amended: \<open>RemoveLoopInvariantArgsFromBeforeBlock\<close> removes in one application the
  arguments of the before block whose yielded value is their initial value, or is an
  argument of the after block that the condition feeds with that before argument or with
  its initial value; it fails when there is none. Every use of a removed argument holds
  its initial value, the arguments that are kept are renumbered, the initial values and
  the yielded values of the removed arguments are dropped, and every use of a result holds
  the result of the new scf.while. All other arguments are kept, each with an argument of
  its own in the new before block: the pattern has no memo of pairs, arguments with the
  same initial and yielded values are not merged, and an argument that only forwards
  another invariant argument is not removed by that application.
\<close>

theorem RemoveLoopInvariantArgsFromBeforeBlock_prunes:
  assumes root: "ir rw = Block b a (pre @ Op i scf_while inits n
                    [[Block bb na (bbody @ [Op ci scf_condition (c # cargs) 0 []])],
                     [Block ab ma (abody @ [Op yi scf_yield ys 0 []])]] # post)"
      and ipt: "ip rw = InsertBefore i"
      and ops: "distinct (map op_id (ops_of_block (ir rw)))"
      and blocks: "distinct (map block_id (blocks_of_block (ir rw)))"
      and bound: "\<forall>j \<in> op_id ` set (ops_of_block (ir rw)). j < nextId rw"
      and bbound: "\<forall>j \<in> block_id ` set (blocks_of_block (ir rw)). j < nextId rw"
      and lens: "length inits = na" "length ys = na"
      and wf: "\<forall>q. BlockArgument ab q \<in> set ys \<longrightarrow> q < length cargs"
      and ssa: "\<forall>k. BlockArgument bb k \<notin> set inits"
  shows "RemoveLoopInvariantArgsFromBeforeBlock rw i =
     (if \<exists>k<na. invariantAt bb ab cargs inits ys k
      then success
        (rw\<lparr>ir := Block b a
               (map (substOp
                      (substitute (map (OpResult i) [0..<n]) (map (OpResult (Suc (nextId rw))) [0..<n]) \<circ>
                       substitute (map (BlockArgument bb) [0..<na])
                         (map (beforeArgValue (invariantAt bb ab cargs inits ys) inits (Suc (Suc (nextId rw))))
                            [0..<na])))
                  (pre @
                   Op (Suc (nextId rw)) scf_while
                     (map (nth inits) (filter (\<lambda>k. \<not> invariantAt bb ab cargs inits ys k) [0..<na])) n
                     [[Block (Suc (Suc (nextId rw)))
                         (length (filter (\<lambda>k. \<not> invariantAt bb ab cargs inits ys k) [0..<na]))
                         (bbody @ [Op ci scf_condition (c # cargs) 0 []])],
                      [Block ab ma
                         (abody @
                          [Op (nextId rw) scf_yield
                             (map (nth ys) (filter (\<lambda>k. \<not> invariantAt bb ab cargs inits ys k) [0..<na]))
                             0 []])]] #
                   post)),
            nextId := Suc (Suc (Suc (nextId rw))),
            ip := InsertAtEnd (Suc (Suc (nextId rw)))\<rparr>)
      else failure)"
  using assms by (rule removeLoopInvariantArgs_result)

text \<open>One application to \<open>chained_example\<close> removes the argument \<open>a1\<close>.\<close>

theorem RemoveLoopInvariantArgsFromBeforeBlock_prunes_witness:
  "RemoveLoopInvariantArgsFromBeforeBlock chained_example 1 = success chained_once"
  using RemoveLoopInvariantArgsFromBeforeBlock_prunes[OF chained_root chained_wf chained_values]
  by (rule chained_reading)

section \<open>The trivial loops whose difference of bounds does not fit\<close>

text \<open>
  C1, as stated, fails on the code: the bounds \<open>2 ^ 63 - 1\<close> and \<open>- 2 ^ 63\<close> have the
  negative difference \<open>- 2 ^ 64 + 1\<close>, the loop does not iterate, but \<open>computeConstDiff\<close>
  answers the wrapped difference 1, the step 1 is greater or equal, and the pattern
  inlines the body as for a loop of one iteration: the use of the result holds the result
  of \<open>work\<close>, not the init value 5.
\<close>

theorem SimplifyTrivialLoops_backwards_inlined:
  "APInt_signed (APInt 64 9223372036854775808) - APInt_signed (APInt 64 9223372036854775807)
     = - 18446744073709551615
   \<and> computeConstDiff (ir backwards_for_example) (OpResult 0 0) (OpResult 1 0) = Ok (Some 1)
   \<and> SimplifyTrivialLoops backwards_for_example 4 =
       success \<lparr>ir = Block 0 0 [c64 0 9223372036854775807, c64 1 9223372036854775808, c64 2 1, c64 3 5,
                               Op 7 (other_op ''work'') [OpResult 0 0, OpResult 3 0] 1 [],
                               Op 6 (other_op ''use'') [OpResult 7 0] 0 []],
              nextId = 8, ip = InsertBefore 4\<rparr>"
proof -
  let ?pre = "[c64 0 9223372036854775807, c64 1 9223372036854775808, c64 2 1, c64 3 5]"
  let ?body = "[Op 7 (other_op ''work'') [BlockArgument 1 0, BlockArgument 1 1] 1 []]"
  let ?T = "Op 5 scf_yield [OpResult 7 0] 0 []"
  let ?post = "[Op 6 (other_op ''use'') [OpResult 4 0] 0 []]"
  have root: "ir backwards_for_example =
      Block 0 0 (?pre @ Op 4 scf_for (OpResult 0 0 # OpResult 1 0 # OpResult 2 0 # [OpResult 3 0]) 1
                   [[Block 1 (Suc (length [OpResult 3 0])) (?body @ [?T])]] # ?post)"
    by (simp add: backwards_for_example_def)
  have ops: "distinct (map op_id (ops_of_block (ir backwards_for_example)))"
    by (simp add: backwards_for_example_def c64_def ops_of_list_def)
  have blocks: "distinct (map block_id (blocks_of_block (ir backwards_for_example)))"
    by (simp add: backwards_for_example_def c64_def blocks_of_list_def)
  have tm: "isTerminator (op_name ?T)" "length (getOperands ?T) = 1"
    by (simp_all add: isTerminator_def)
  have ssa: "\<forall>j. BlockArgument 1 j \<notin> set (OpResult 0 0 # [OpResult 3 0])"
     "\<forall>j. OpResult 4 j \<notin> set (OpResult 0 0 # [OpResult 3 0]) \<union> set (getOperands ?T)"
    by simp_all
  have diff: "OpResult 0 0 \<noteq> OpResult 1 0"
     "computeConstDiff (ir backwards_for_example) (OpResult 0 0) (OpResult 1 0) = Ok (Some 1)" "(0::int) < 1"
    by (simp_all add: backwards_for_example_def eval_defs)
  have step: "m_ConstantInt (ir backwards_for_example) (OpResult 2 0) = Some (APInt 64 1)"
     "1 \<le> APInt_signed (APInt 64 1)"
    by (simp_all add: backwards_for_example_def eval_defs)
  have signed: "APInt_signed (APInt 64 9223372036854775808) - APInt_signed (APInt 64 9223372036854775807)
     = - 18446744073709551615"
    by (simp add: eval_defs)
  have "SimplifyTrivialLoops backwards_for_example 4 =
       success \<lparr>ir = Block 0 0 [c64 0 9223372036854775807, c64 1 9223372036854775808, c64 2 1, c64 3 5,
                               Op 7 (other_op ''work'') [OpResult 0 0, OpResult 3 0] 1 [],
                               Op 6 (other_op ''use'') [OpResult 7 0] 0 []],
              nextId = 8, ip = InsertBefore 4\<rparr>"
    using SimplifyTrivialLoops_single_iteration[OF root ops blocks tm ssa diff step]
    by (simp add: backwards_for_example_def c64_def substitute_def)
  then show ?thesis
    using signed diff(2) by simp
qed

text \<open>
  C10, as stated, fails on the code: the bounds \<open>-1\<close> and \<open>2 ^ 63 - 1\<close> have the positive
  difference \<open>2 ^ 63\<close>, the step 1 is less, the body holds only its terminator and the
  yielded constant 9 is defined outside the loop, but \<open>computeConstDiff\<close> answers the
  wrapped difference \<open>- 2 ^ 63\<close> and the pattern takes the branch of the loops that do not
  iterate: the use of the result holds the init value 5, not the yielded value 9.
\<close>

theorem SimplifyTrivialLoops_empty_body_wraps:
  "APInt_signed (APInt 64 9223372036854775807) - APInt_signed (APInt 64 18446744073709551615)
     = 9223372036854775808
   \<and> APInt_signed (APInt 64 1) < 9223372036854775808
   \<and> isDefinedOutsideOfLoop
        (Op 4 scf_for [OpResult 0 0, OpResult 1 0, OpResult 2 0, OpResult 3 0] 1
           [[Block 1 2 [Op 5 scf_yield [OpResult 7 0] 0 []]]]) (OpResult 7 0)
   \<and> SimplifyTrivialLoops wrapped_empty_for_example 4 =
       success \<lparr>ir = Block 0 0 [c64 0 18446744073709551615, c64 1 9223372036854775807, c64 2 1, c64 3 5,
                               c64 7 9, Op 6 (other_op ''use'') [OpResult 3 0] 0 []],
              nextId = 8, ip = InsertBefore 4\<rparr>"
  by (simp add: wrapped_empty_for_example_def eval_defs SimplifyTrivialLoops_def replaceOp_def succeed_def
      getResults_def replaceAllUsesWith_def eraseOp_def removeOp_def substBlock_def setOperands_def
      replaceValue_def isDefinedOutsideOfLoop_def)

text \<open>
  C2, as stated, fails on the code: on 128-bit integers the bounds 0 and \<open>2 ^ 100\<close> have
  the positive difference \<open>2 ^ 100\<close> and the step \<open>2 ^ 100\<close> is greater or equal, a loop of
  one iteration, but the difference does not fit 64 bits: \<open>getSExtValue\<close> asserts in
  \<open>computeConstDiff\<close> and the pattern does not return.
\<close>

theorem SimplifyTrivialLoops_wide_bounds_assert:
  "APInt_signed (APInt 128 1267650600228229401496703205376) - APInt_signed (APInt 128 0)
     = 1267650600228229401496703205376
   \<and> APInt_sge (APInt 128 1267650600228229401496703205376) 1267650600228229401496703205376
   \<and> computeConstDiff (ir wide_for_example) (OpResult 0 0) (OpResult 1 0) = AssertFail
   \<and> SimplifyTrivialLoops wide_for_example 3 = crash"
  by (simp add: wide_for_example_def c128_def eval_defs SimplifyTrivialLoops_def)

section \<open>Properties: nested conditionals are combined\<close>

text \<open>Edits that leave the blocks of a region alone.\<close>

lemma spliceBefore_absent_blocks:
  "t \<notin> region_op_ids bs \<Longrightarrow> map (map_block id (spliceBefore t new)) bs = bs"
  using spliceBefore_absent_regions[of t "[bs]" new] by (simp add: region_op_ids_def region_block_ids_def)

lemma removeOp_absent_blocks:
  "t \<notin> region_op_ids bs \<Longrightarrow> map (map_block id (removeOp t)) bs = bs"
  using removeOp_absent_regions[of t "[bs]"] by (simp add: region_op_ids_def region_block_ids_def)

lemma spliceAtEnd_absent_blocks:
  "c \<notin> region_block_ids bs \<Longrightarrow> map (map_block id (spliceAtEnd c new)) bs = bs"
  using spliceAtEnd_absent_regions[of c "[bs]" new] by (simp add: region_op_ids_def region_block_ids_def)

lemma appendBlock_absent_blocks:
  "i \<notin> region_op_ids bs \<Longrightarrow> map (map_block (appendBlock i r y) id) bs = bs"
  using appendBlock_absent_regions[of i "[bs]" r y] by (simp add: region_op_ids_def region_block_ids_def)

lemma removeBlock_absent_blocks:
  assumes "c \<notin> region_block_ids bs"
  shows "map (map_block (removeBlock c) id) bs = bs" "filter (\<lambda>w. block_id w \<noteq> c) bs = bs"
  using removeBlock_absent_regions[of c "[bs]"] assms by (simp_all add: region_op_ids_def region_block_ids_def)

lemma find_op_blocks_skip:
  assumes "t \<notin> region_op_ids bs"
  shows "find (\<lambda>z. op_id z = t) (concat (map ops_of_block bs) @ rest) = find (\<lambda>z. op_id z = t) rest"
  using assms by (intro find_skip) (auto simp: region_op_ids_def region_block_ids_def)

lemma find_block_blocks_skip:
  assumes "c \<notin> region_block_ids bs"
  shows "find (\<lambda>z. block_id z = c) (concat (map blocks_of_block bs) @ rest) = find (\<lambda>z. block_id z = c) rest"
  using assms by (intro find_skip) (auto simp: region_op_ids_def region_block_ids_def)

lemmas absent_blocks_simps = spliceBefore_absent_blocks removeOp_absent_blocks spliceAtEnd_absent_blocks
  appendBlock_absent_blocks removeBlock_absent_blocks find_op_blocks_skip find_block_blocks_skip

text \<open>The selects.\<close>

lemma selectOps_ids: "map op_id (selectOps c ts es N ups) = [N..<N + length ups]"
proof (induction ups arbitrary: N)
  case Nil
  then show ?case by simp
next
  case (Cons idx idxs)
  show ?case
    using Cons[of "Suc N"] by (simp add: upt_conv_Cons del: upt_Suc)
qed

lemma selectOps_flat: "ops_of_list (selectOps c ts es N ups) = selectOps c ts es N ups"
  by (induction ups arbitrary: N) simp_all

lemma selectOps_op_ids [simp]: "op_ids (selectOps c ts es N ups) = {N..<N + length ups}"
  unfolding op_ids_def selectOps_flat selectOps_ids by simp

lemma selectOps_blocks [simp]: "blocks_of_list (selectOps c ts es N ups) = []"
  by (induction ups arbitrary: N) simp_all

lemma selectOps_block_ids [simp]: "block_ids (selectOps c ts es N ups) = {}"
  by (simp add: block_ids_list)

lemma selectResults_length [simp]: "length (selectResults N ups results) = length results"
  by (induction ups arbitrary: N results) simp_all

lemma createSelects_at:
  assumes "ir rw = Block b a (pre @ x # post)"
      and "ip rw = InsertBefore (op_id x)"
      and "op_id x \<notin> op_ids pre" "op_id x \<notin> op_ids post" "op_id x \<notin> op_id ` set (tl (ops_of_op x))"
      and "op_id x < nextId rw"
      and "\<forall>idx \<in> set ups. idx < length results \<and> idx < length ts \<and> idx < length es"
  shows "createSelects c ts es ups results rw =
         Ok (selectResults (nextId rw) ups results,
             rw\<lparr>ir := Block b a (pre @ selectOps c ts es (nextId rw) ups @ x # post),
                nextId := nextId rw + length ups\<rparr>)"
  using assms
proof (induction ups arbitrary: rw pre results)
  case Nil
  then show ?case by simp
next
  case (Cons idx idxs)
  let ?sel = "Op (nextId rw) arith_select [c, ts ! idx, es ! idx] 1 []"
  let ?rw1 = "rw\<lparr>ir := Block b a ((pre @ [?sel]) @ x # post), nextId := Suc (nextId rw)\<rparr>"
  have "map_block id (spliceBefore (op_id x) [?sel]) (Block b a (pre @ x # post)) =
        Block b a (pre @ [?sel] @ x # post)"
    using Cons.prems(3-5) by (intro spliceBefore_at) simp_all
  then have created: "createOp arith_select [c, ts ! idx, es ! idx] (Suc 0) [] rw = (nextId rw, ?rw1)"
    using Cons.prems(1,2) by (simp add: createOp_def insertOps_def)
  have "createSelects c ts es idxs (results[idx := OpResult (nextId rw) 0]) ?rw1 =
        Ok (selectResults (nextId ?rw1) idxs (results[idx := OpResult (nextId rw) 0]),
            ?rw1\<lparr>ir := Block b a ((pre @ [?sel]) @ selectOps c ts es (nextId ?rw1) idxs @ x # post),
                  nextId := nextId ?rw1 + length idxs\<rparr>)"
    using Cons.prems by (intro Cons.IH) (simp_all add: op_ids_Cons)
  then show ?case
    using Cons.prems(7) by (simp add: created)
qed

text \<open>The loop over the yielded values.\<close>

lemma nth_prefix_mapped:
  "idx < length ts \<Longrightarrow> (map f (take idx ts) @ drop idx ts) ! idx = ts ! idx"
  by (simp add: nth_append)

lemma update_prefix_mapped:
  "idx < length ts \<Longrightarrow>
   (map f (take idx ts) @ drop idx ts)[idx := f (ts ! idx)] = map f (take (Suc idx) ts) @ drop (Suc idx) ts"
  by (simp add: take_Suc_conv_app_nth list_update_append Cons_nth_drop_Suc[symmetric])

lemma same_prefix_mapped:
  assumes "idx < length ts" "f (ts ! idx) = ts ! idx"
  shows "map f (take idx ts) @ drop idx ts = map f (take (Suc idx) ts) @ drop (Suc idx) ts"
  using update_prefix_mapped[OF assms(1), of f] nth_prefix_mapped[OF assms(1), of f] assms(2)
  by (metis list_update_id)

lemma combineYields_reading:
  assumes nst: "getRegions Nst ! 0 = nthenR" "getRegions Nst ! 1 = nelseR" "op_id Nst = j"
      and nty: "getYield nthenR = Ok Ynt" "getOperands Ynt = nts"
      and ney: "\<And>q. OpResult j q \<in> set ts \<Longrightarrow>
                  getYield nelseR = Ok Yne \<and> getOperands Yne = nes \<and> q < length nes \<and> q < length nts"
      and len: "length ts = n" "length es = n"
      and out: "\<And>k. k < n \<Longrightarrow> \<not> fromNested j (ts ! k) \<Longrightarrow> \<not> definedInRegion thenR (ts ! k)"
  shows "idx \<le> n \<Longrightarrow>
         combineYields Nst thenR es idx (n - idx)
           (map (combinedYield j nts) (take idx ts) @ drop idx ts)
           (filter (\<lambda>k. \<not> fromNested j (ts ! k)) [0..<idx]) =
         (if \<exists>k. idx \<le> k \<and> k < n \<and> refusesAt j nes ts es k then Ok None
          else Ok (Some (map (combinedYield j nts) ts, filter (\<lambda>k. \<not> fromNested j (ts ! k)) [0..<n])))"
proof (induction "n - idx" arbitrary: idx)
  case 0
  then have "idx = n" by simp
  then show ?case using len by simp
next
  case (Suc d)
  then have lt: "idx < n" and rest: "n - idx = Suc (n - Suc idx)" "d = n - Suc idx" "Suc idx \<le> n"
    by simp_all
  let ?f = "combinedYield j nts"
  let ?P = "\<lambda>k. \<not> fromNested j (ts ! k)"
  have nst1: "getRegions Nst ! Suc 0 = nelseR"
    using nst(2) by simp
  have cur: "(map ?f (take idx ts) @ drop idx ts) ! idx = ts ! idx"
    using lt len by (simp add: nth_prefix_mapped)
  have IH: "combineYields Nst thenR es (Suc idx) (n - Suc idx)
           (map ?f (take (Suc idx) ts) @ drop (Suc idx) ts) (filter ?P [0..<Suc idx]) =
         (if \<exists>k. Suc idx \<le> k \<and> k < n \<and> refusesAt j nes ts es k then Ok None
          else Ok (Some (map ?f ts, filter ?P [0..<n])))"
    using rest by (intro Suc.hyps(1)) simp_all
  have split: "(\<exists>k. idx \<le> k \<and> k < n \<and> refusesAt j nes ts es k) =
               (refusesAt j nes ts es idx \<or> (\<exists>k. Suc idx \<le> k \<and> k < n \<and> refusesAt j nes ts es k))"
    using lt by (metis Suc_leI le_eq_less_or_eq Suc_leD order_refl)
  show ?case
  proof (cases "fromNested j (ts ! idx)")
    case True
    then obtain q where q: "ts ! idx = OpResult j q"
      by (auto simp: fromNested_def split: val.splits)
    then have "OpResult j q \<in> set ts"
      using lt len by (metis nth_mem)
    then have ne: "getYield nelseR = Ok Yne" "getOperands Yne = nes" "q < length nes" "q < length nts"
      using ney by blast+
    have upd: "(map ?f (take idx ts) @ drop idx ts)[idx := nts ! q] =
               map ?f (take (Suc idx) ts) @ drop (Suc idx) ts"
      using update_prefix_mapped[of idx ts ?f] lt len q by (simp add: combinedYield_def)
    have ups: "filter ?P [0..<Suc idx] = filter ?P [0..<idx]"
      using True by simp
    have ref: "refusesAt j nes ts es idx = (nes ! q \<noteq> es ! idx)"
      using q by (simp add: refusesAt_def)
    show ?thesis
      unfolding rest(1) split
      using lt len ne q
      by (auto simp: cur nst nst1 nty bindA_def upd IH[unfolded ups] ref)
  next
    case False
    have same: "map ?f (take idx ts) @ drop idx ts = map ?f (take (Suc idx) ts) @ drop (Suc idx) ts"
      using False lt len
      by (intro same_prefix_mapped) (auto simp: combinedYield_def fromNested_def split: val.splits)
    have ups: "filter ?P [0..<Suc idx] = filter ?P [0..<idx] @ [idx]"
      using False by simp
    have ref: "\<not> refusesAt j nes ts es idx"
      using False by (auto simp: refusesAt_def fromNested_def split: val.splits)
    have nn: "\<not> (case ts ! idx of OpResult d k \<Rightarrow> d = op_id Nst | BlockArgument c k \<Rightarrow> False)"
      using False unfolding fromNested_def nst(3) by simp
    show ?thesis
      unfolding rest(1) split
      using out[OF lt False] ref nn
      by (auto simp: cur IH[unfolded ups same[symmetric]])
  qed
qed

text \<open>The rewrite.\<close>

lemma selectResults_range:
  "v \<in> set (selectResults M ups results) \<Longrightarrow> v \<in> set results \<or> (\<exists>p\<ge>M. v = OpResult p 0)"
proof (induction ups arbitrary: M results)
  case Nil
  then show ?case by simp
next
  case (Cons idx idxs)
  then have "v \<in> set (results[idx := OpResult M 0]) \<or> (\<exists>p\<ge>Suc M. v = OpResult p 0)"
    by simp
  then show ?case
    using set_update_subset_insert[of results idx "OpResult M 0"] by (auto intro: Suc_leD)
qed

lemma combineRewrite_at:
  assumes root: "ir rw = Block b a (pre @ Op i scf_if [cnd] n
                    [[Block tb ta [Op j scf_if [ncnd] m [[Block ntb 0 (nbody @ [Op nty scf_yield nts 0 []])], nelseR],
                                   Op ty scf_yield ts 0 []]],
                     elseR] # post)"
      and ipt: "ip rw = InsertBefore i"
      and ops: "distinct (map op_id (ops_of_block (ir rw)))"
      and blocks: "distinct (map block_id (blocks_of_block (ir rw)))"
      and bound: "\<forall>t \<in> op_id ` set (ops_of_block (ir rw)). t < nextId rw"
      and bbound: "\<forall>t \<in> block_id ` set (blocks_of_block (ir rw)). t < nextId rw"
      and sel: "\<forall>idx \<in> set ups. idx < n \<and> idx < length ts' \<and> idx < length es"
  shows "combineRewrite i cnd ncnd n ntb ts' es ups rw =
     Ok (rw\<lparr>ir := Block b a
               (map (substOp (substitute (map (OpResult i) [0..<n])
                                (selectResults (Suc (Suc (Suc (nextId rw)))) ups
                                   (map (OpResult (Suc (nextId rw))) [0..<n]))))
                  (pre @ Op (nextId rw) arith_andi [cnd, ncnd] 1 [] #
                   selectOps cnd ts' es (Suc (Suc (Suc (nextId rw)))) ups @
                   Op (Suc (nextId rw)) scf_if [OpResult (nextId rw) 0] n
                     [[Block (Suc (Suc (nextId rw))) 0
                         (nbody @ [Op (Suc (Suc (Suc (nextId rw))) + length ups) scf_yield ts' 0 []])],
                      (if es = [] then []
                       else [Block (Suc (Suc (Suc (Suc (nextId rw)))) + length ups) 0
                               [Op (Suc (Suc (Suc (Suc (Suc (nextId rw))))) + length ups) scf_yield es 0 []]])] #
                   post)),
            nextId := (if es = [] then Suc (Suc (Suc (Suc (nextId rw)))) + length ups
                       else Suc (Suc (Suc (Suc (Suc (Suc (nextId rw)))))) + length ups),
            ip := InsertAtEnd (if es = [] then Suc (Suc (nextId rw))
                               else Suc (Suc (Suc (Suc (nextId rw)))) + length ups)\<rparr>)"
proof -
  define N where "N = nextId rw"
  define u where "u = length ups"
  define sels where "sels = selectOps cnd ts' es (Suc (Suc (Suc N))) ups"
  \<comment> \<open>identifiers\<close>
  have oids: "i \<notin> op_ids pre" "i \<notin> op_ids post" "i \<notin> op_ids nbody"
             "i \<notin> region_op_ids elseR"
             "i \<notin> region_op_ids nelseR"
             "nty \<notin> op_ids pre" "nty \<notin> op_ids post" "nty \<notin> op_ids nbody"
             "nty \<notin> region_op_ids elseR"
             "nty \<notin> region_op_ids nelseR"
             "i \<noteq> j" "i \<noteq> ty" "i \<noteq> nty" "j \<noteq> nty" "ty \<noteq> nty" "j \<noteq> i" "ty \<noteq> i" "nty \<noteq> i" "nty \<noteq> j" "nty \<noteq> ty"
    using ops unfolding root by (auto simp: op_ids_list region_op_ids_def)
  have obound: "\<And>t. t \<in> op_ids pre \<Longrightarrow> t < N" "\<And>t. t \<in> op_ids post \<Longrightarrow> t < N"
               "\<And>t. t \<in> op_ids nbody \<Longrightarrow> t < N"
               "\<And>t. t \<in> region_op_ids elseR \<Longrightarrow> t < N"
               "\<And>t. t \<in> region_op_ids nelseR \<Longrightarrow> t < N"
               "i < N" "j < N" "ty < N" "nty < N"
    using bound unfolding root N_def by (auto simp: op_ids_list region_op_ids_def)
  have ofresh: "t \<notin> op_ids pre" "t \<notin> op_ids post" "t \<notin> op_ids nbody"
               "t \<notin> region_op_ids elseR"
               "t \<notin> region_op_ids nelseR"
               "t \<noteq> i" "t \<noteq> j" "t \<noteq> ty" "t \<noteq> nty"
               "i \<noteq> t" "j \<noteq> t" "ty \<noteq> t" "nty \<noteq> t" if "N \<le> t" for t
    using that obound by fastforce+
  have bids: "ntb \<notin> block_ids pre" "ntb \<notin> block_ids post" "ntb \<notin> block_ids nbody"
             "ntb \<notin> region_block_ids elseR"
             "ntb \<notin> region_block_ids nelseR"
             "ntb \<noteq> b" "ntb \<noteq> tb" "b \<noteq> ntb" "tb \<noteq> ntb"
    using blocks unfolding root by (auto simp: block_ids_list region_block_ids_def)
  have bbnd: "\<And>t. t \<in> block_ids pre \<Longrightarrow> t < N" "\<And>t. t \<in> block_ids post \<Longrightarrow> t < N"
             "\<And>t. t \<in> block_ids nbody \<Longrightarrow> t < N"
             "\<And>t. t \<in> region_block_ids elseR \<Longrightarrow> t < N"
             "\<And>t. t \<in> region_block_ids nelseR \<Longrightarrow> t < N"
             "b < N" "tb < N" "ntb < N"
    using bbound unfolding root N_def by (auto simp: block_ids_list region_block_ids_def)
  have bfresh: "t \<notin> block_ids pre" "t \<notin> block_ids post" "t \<notin> block_ids nbody"
               "t \<notin> region_block_ids elseR"
               "t \<notin> region_block_ids nelseR"
               "t \<noteq> b" "t \<noteq> tb" "t \<noteq> ntb" "b \<noteq> t" "tb \<noteq> t" "ntb \<noteq> t" if "N \<le> t" for t
    using that bbnd by fastforce+
  have f0: "N \<le> N" "N \<le> Suc N" "N \<le> Suc (Suc N)" "N \<le> Suc (Suc (Suc (N + u)))"
           "N \<le> Suc (Suc (Suc (Suc (N + u))))" "N \<le> Suc (Suc (Suc (Suc (Suc (N + u)))))"
    by simp_all
  note ids = oids bids ofresh[OF f0(1)] ofresh[OF f0(2)] ofresh[OF f0(3)] ofresh[OF f0(4)]
    ofresh[OF f0(5)] ofresh[OF f0(6)] bfresh[OF f0(1)] bfresh[OF f0(2)] bfresh[OF f0(3)]
    bfresh[OF f0(4)] bfresh[OF f0(5)] bfresh[OF f0(6)]
  have sids: "op_ids sels = {Suc (Suc (Suc N))..<Suc (Suc (Suc (N + u)))}" "block_ids sels = {}"
    by (simp_all add: sels_def u_def)
  \<comment> \<open>the rewrite\<close>
  let ?Yn = "Op nty scf_yield nts 0 []"
  let ?Yt = "Op ty scf_yield ts 0 []"
  let ?X = "Op i scf_if [cnd] n
              [[Block tb ta [Op j scf_if [ncnd] m [[Block ntb 0 (nbody @ [?Yn])], nelseR], ?Yt]], elseR]"
  let ?X' = "Op i scf_if [cnd] n [[Block tb ta [Op j scf_if [ncnd] m [[], nelseR], ?Yt]], elseR]"
  let ?A = "Op N arith_andi [cnd, ncnd] (Suc 0) []"
  let ?F = "\<lambda>rs. Op (Suc N) scf_if [OpResult N 0] n rs"
  let ?Ynew = "Op (Suc (Suc (Suc (N + u)))) scf_yield ts' 0 []"
  let ?Ye = "Op (Suc (Suc (Suc (Suc (Suc (N + u)))))) scf_yield es 0 []"
  let ?T = "\<lambda>body. Block (Suc (Suc N)) 0 body"
  let ?E = "\<lambda>body. Block (Suc (Suc (Suc (Suc (N + u))))) 0 body"
  let ?R1 = "Block b a (pre @ ?A # ?X # post)"
  let ?R2 = "Block b a (pre @ ?A # ?F [[], []] # ?X # post)"
  let ?R3 = "Block b a (pre @ ?A # ?F [[?T []], []] # ?X # post)"
  let ?R4 = "Block b a (pre @ ?A # sels @ ?F [[?T []], []] # ?X # post)"
  let ?R5 = "Block b a (pre @ ?A # sels @ ?F [[?T (nbody @ [?Yn])], []] # ?X' # post)"
  let ?R6 = "Block b a (pre @ ?A # sels @ ?F [[?T (nbody @ [?Yn, ?Ynew])], []] # ?X' # post)"
  let ?R7 = "Block b a (pre @ ?A # sels @ ?F [[?T (nbody @ [?Ynew])], []] # ?X' # post)"
  let ?R8 = "Block b a (pre @ ?A # sels @ ?F [[?T (nbody @ [?Ynew])], [?E []]] # ?X' # post)"
  let ?R9 = "Block b a (pre @ ?A # sels @ ?F [[?T (nbody @ [?Ynew])], [?E [?Ye]]] # ?X' # post)"
  have s1: "createOp arith_andi [cnd, ncnd] (Suc 0) [] rw = (N, rw\<lparr>ir := ?R1, nextId := Suc N\<rparr>)"
    by (simp add: createOp_def insertOps_def root ipt spliceBefore_def absent_simps absent_blocks_simps
          ids N_def)
  have s2: "createOp scf_if [OpResult N 0] n [[], []] (rw\<lparr>ir := ?R1, nextId := Suc N\<rparr>) =
            (Suc N, rw\<lparr>ir := ?R2, nextId := Suc (Suc N)\<rparr>)"
    by (simp add: createOp_def insertOps_def ipt spliceBefore_def absent_simps absent_blocks_simps ids)
  have s3: "createBlock (Suc N) 0 0 (rw\<lparr>ir := ?R2, nextId := Suc (Suc N)\<rparr>) =
            (Suc (Suc N), rw\<lparr>ir := ?R3, nextId := Suc (Suc (Suc N)), ip := InsertAtEnd (Suc (Suc N))\<rparr>)"
    by (simp add: createBlock_def appendBlock_def absent_simps absent_blocks_simps ids)
  have p4: "Suc N \<notin> op_ids (pre @ [?A])" "Suc N \<notin> op_ids (?X # post)"
    using ofresh[OF f0(2)] by (auto simp: op_ids_Cons op_ids_list region_op_ids_def)
  have s4: "createSelects cnd ts' es ups (map (OpResult (Suc N)) [0..<n])
              (rw\<lparr>ir := ?R3, nextId := Suc (Suc (Suc N)), ip := InsertBefore (Suc N)\<rparr>) =
            Ok (selectResults (Suc (Suc (Suc N))) ups (map (OpResult (Suc N)) [0..<n]),
                rw\<lparr>ir := ?R4, nextId := Suc (Suc (Suc (N + u))), ip := InsertBefore (Suc N)\<rparr>)"
    using createSelects_at[where rw="rw\<lparr>ir := ?R3, nextId := Suc (Suc (Suc N)), ip := InsertBefore (Suc N)\<rparr>"
            and b=b and a=a and pre="pre @ [?A]" and x="?F [[?T []], []]" and post="?X # post"
            and ups=ups and results="map (OpResult (Suc N)) [0..<n]" and ts=ts' and es=es and c=cnd]
      sel p4
    by (simp add: sels_def u_def)
  have s5: "mergeBlocks ntb (Suc (Suc N)) []
              (rw\<lparr>ir := ?R4, nextId := Suc (Suc (Suc (N + u))), ip := InsertBefore (Suc N)\<rparr>) =
            Ok (rw\<lparr>ir := ?R5, nextId := Suc (Suc (Suc (N + u))), ip := InsertBefore (Suc N)\<rparr>)"
    by (simp add: mergeBlocks_def inlineBlock_def lookup_simps getArguments_def
          insertOps_def eraseBlock_def removeBlock_def spliceAtEnd_def
          absent_simps absent_blocks_simps ids sids del: map_map)
  have s6: "lookupBlock ?R5 (Suc (Suc N)) = Some (?T (nbody @ [?Yn]))"
    by (simp add: lookup_simps absent_blocks_simps ids sids)
  have s6': "getYield [?T (nbody @ [?Yn])] = Ok ?Yn"
    by (simp add: getYield_def getTerminator_def isTerminator_def bindA_def)
  have s7: "createOp scf_yield ts' 0 []
              (rw\<lparr>ir := ?R5, nextId := Suc (Suc (Suc (N + u))), ip := InsertAtEnd (Suc (Suc N))\<rparr>) =
            (Suc (Suc (Suc (N + u))),
             rw\<lparr>ir := ?R6, nextId := Suc (Suc (Suc (Suc (N + u)))), ip := InsertAtEnd (Suc (Suc N))\<rparr>)"
    by (simp add: createOp_def insertOps_def spliceAtEnd_def absent_simps absent_blocks_simps ids sids)
  have s8: "replaceOp nty []
              (rw\<lparr>ir := ?R6, nextId := Suc (Suc (Suc (Suc (N + u)))), ip := InsertAtEnd (Suc (Suc N))\<rparr>) =
            Ok (rw\<lparr>ir := ?R7, nextId := Suc (Suc (Suc (Suc (N + u)))), ip := InsertAtEnd (Suc (Suc N))\<rparr>)"
    using obound(9)
    by (simp add: replaceOp_def lookup_simps getResults_def eraseOp_def removeOp_def
          absent_simps absent_blocks_simps ids sids)
  have s9: "createBlock (Suc N) (Suc 0) 0
              (rw\<lparr>ir := ?R7, nextId := Suc (Suc (Suc (Suc (N + u)))), ip := InsertAtEnd (Suc (Suc N))\<rparr>) =
            (Suc (Suc (Suc (Suc (N + u)))),
             rw\<lparr>ir := ?R8, nextId := Suc (Suc (Suc (Suc (Suc (N + u))))),
                ip := InsertAtEnd (Suc (Suc (Suc (Suc (N + u)))))\<rparr>)"
    by (simp add: createBlock_def appendBlock_def absent_simps absent_blocks_simps ids sids)
  have s9': "createOp scf_yield es 0 []
              (rw\<lparr>ir := ?R8, nextId := Suc (Suc (Suc (Suc (Suc (N + u))))),
                  ip := InsertAtEnd (Suc (Suc (Suc (Suc (N + u)))))\<rparr>) =
            (Suc (Suc (Suc (Suc (Suc (N + u))))),
             rw\<lparr>ir := ?R9, nextId := Suc (Suc (Suc (Suc (Suc (Suc (N + u)))))),
                ip := InsertAtEnd (Suc (Suc (Suc (Suc (N + u)))))\<rparr>)"
    by (simp add: createOp_def insertOps_def spliceAtEnd_def absent_simps absent_blocks_simps ids sids)
  define results where "results = selectResults (Suc (Suc (Suc N))) ups (map (OpResult (Suc N)) [0..<n])"
  have disj: "set results \<inter> set (map (OpResult i) [0..<n]) = {}"
  proof -
    have "v \<notin> set (map (OpResult i) [0..<n])" if v: "v \<in> set results" for v
      using selectResults_range[OF v[unfolded results_def]] obound(6) by auto
    then show ?thesis by blast
  qed
  have s10: "replaceOp i results (rw\<lparr>ir := Block b a (pre @ ?A # sels @ ?F rs # ?X' # post), nextId := k, ip := p\<rparr>) =
             Ok (rw\<lparr>ir := Block b a (map (substOp (substitute (map (OpResult i) [0..<n]) results))
                                        (pre @ ?A # sels @ ?F rs # post)),
                    nextId := k, ip := p\<rparr>)"
    if rs: "i \<notin> op_ids [?F rs]" for rs k p
  proof -
    have "replaceOp (op_id ?X') results
            (rw\<lparr>ir := Block b a (pre @ ?A # sels @ ?F rs # ?X' # post), nextId := k, ip := p\<rparr>) =
          Ok (rw\<lparr>ir := Block b a (pre @ ?A # sels @ ?F rs # ?X' # post), nextId := k, ip := p,
                 ir := Block b a (map (substOp (substitute (getResults ?X') results))
                                    ((pre @ ?A # sels @ [?F rs]) @ post))\<rparr>)"
    proof (rule replaceOp_at)
      show "ir (rw\<lparr>ir := Block b a (pre @ ?A # sels @ ?F rs # ?X' # post), nextId := k, ip := p\<rparr>) =
            Block b a ((pre @ ?A # sels @ [?F rs]) @ ?X' # post)"
        by simp
      show "op_id ?X' \<notin> op_ids (pre @ ?A # sels @ [?F rs])"
        using rs obound(6) oids(1) by (simp add: op_ids_Cons[of ?A] sids)
      show "op_id ?X' \<notin> op_ids post"
        using oids(2) by simp
      show "length results = getNumResults ?X'"
        by (simp add: results_def)
      show "set results \<inter> set (getResults ?X') = {}"
        using disj by (simp add: getResults_def)
    qed
    then show ?thesis
      by (simp add: getResults_def)
  qed
  have rs7: "i \<notin> op_ids [?F [[?T (nbody @ [?Ynew])], []]]"
    using obound(6) oids(3) by (simp add: op_ids_Cons op_ids_list[symmetric])
  have rs9: "i \<notin> op_ids [?F [[?T (nbody @ [?Ynew])], [?E [?Ye]]]]"
    using obound(6) oids(3) by (simp add: op_ids_Cons op_ids_list[symmetric])
  have body: "combineRewrite i cnd ncnd n ntb ts' es ups rw =
              replaceOp i results
                (if es \<noteq> []
                 then rw\<lparr>ir := ?R9, nextId := Suc (Suc (Suc (Suc (Suc (Suc (N + u)))))),
                         ip := InsertAtEnd (Suc (Suc (Suc (Suc (N + u)))))\<rparr>
                 else rw\<lparr>ir := ?R7, nextId := Suc (Suc (Suc (Suc (N + u)))), ip := InsertAtEnd (Suc (Suc N))\<rparr>)"
    unfolding N_def[symmetric]
    by (simp add: combineRewrite_def s1 s2 s3 s4 s5 s6 s6' s7 s8 s9 s9' bindA_def Let_def
          results_def[symmetric] cong: if_cong)
  show ?thesis
  proof (cases "es = []")
    case True
    have "combineRewrite i cnd ncnd n ntb ts' es ups rw =
          Ok (rw\<lparr>ir := Block b a (map (substOp (substitute (map (OpResult i) [0..<n]) results))
                                     (pre @ ?A # sels @ ?F [[?T (nbody @ [?Ynew])], []] # post)),
                 nextId := Suc (Suc (Suc (Suc (N + u)))), ip := InsertAtEnd (Suc (Suc N))\<rparr>)"
      unfolding body using True s10[OF rs7] by simp
    then show ?thesis
      using True unfolding N_def[symmetric] u_def[symmetric] results_def sels_def by simp
  next
    case False
    have "combineRewrite i cnd ncnd n ntb ts' es ups rw =
          Ok (rw\<lparr>ir := Block b a (map (substOp (substitute (map (OpResult i) [0..<n]) results))
                                     (pre @ ?A # sels @ ?F [[?T (nbody @ [?Ynew])], [?E [?Ye]]] # post)),
                 nextId := Suc (Suc (Suc (Suc (Suc (Suc (N + u)))))),
                 ip := InsertAtEnd (Suc (Suc (Suc (Suc (N + u)))))\<rparr>)"
      unfolding body using False s10[OF rs9] by simp
    then show ?thesis
      using False unfolding N_def[symmetric] u_def[symmetric] results_def sels_def by simp
  qed
qed

lemma bindA_Ok: "bindA (Ok x) f = f x"
  by (simp add: bindA_def)

lemma selectOps_cong:
  "\<forall>k \<in> set ups. ts' ! k = ts ! k \<Longrightarrow> selectOps c ts' es N ups = selectOps c ts es N ups"
  by (induction ups arbitrary: N) simp_all

lemma combineNestedIfs_result:
  assumes root: "ir rw = Block b a (pre @ Op i scf_if [cnd] n
                    [[Block tb ta [Op j scf_if [ncnd] m [[Block ntb 0 (nbody @ [Op nty scf_yield nts 0 []])], nelseR],
                                   Op ty scf_yield ts 0 []]],
                     elseR] # post)"
      and ipt: "ip rw = InsertBefore i"
      and ops: "distinct (map op_id (ops_of_block (ir rw)))"
      and blocks: "distinct (map block_id (blocks_of_block (ir rw)))"
      and bound: "\<forall>t \<in> op_id ` set (ops_of_block (ir rw)). t < nextId rw"
      and bbound: "\<forall>t \<in> block_id ` set (blocks_of_block (ir rw)). t < nextId rw"
      and outer: "elseR = [] \<and> es = [] \<or> elseR = [Block eb ea [Op ey scf_yield es 0 []]]"
      and inner: "nelseR = [] \<and> nes = [] \<or> nelseR = [Block neb nea [Op ney scf_yield nes 0 []]]"
      and lens: "length ts = n" "length es = n" "length nts = m" "length nes = m"
      and wf: "\<forall>q. OpResult j q \<in> set ts \<longrightarrow> q < m"
      and ssa: "\<forall>q. OpResult ty q \<notin> set ts" "\<forall>q. BlockArgument tb q \<notin> set ts"
  shows "CombineNestedIfs rw i =
     (if \<exists>k<n. refusesAt j nes ts es k then failure
      else success
        (rw\<lparr>ir := Block b a
               (map (substOp (substitute (map (OpResult i) [0..<n])
                                (selectResults (Suc (Suc (Suc (nextId rw))))
                                   (filter (\<lambda>k. \<not> fromNested j (ts ! k)) [0..<n])
                                   (map (OpResult (Suc (nextId rw))) [0..<n]))))
                  (pre @ Op (nextId rw) arith_andi [cnd, ncnd] 1 [] #
                   selectOps cnd ts es (Suc (Suc (Suc (nextId rw))))
                     (filter (\<lambda>k. \<not> fromNested j (ts ! k)) [0..<n]) @
                   Op (Suc (nextId rw)) scf_if [OpResult (nextId rw) 0] n
                     [[Block (Suc (Suc (nextId rw))) 0
                         (nbody @
                          [Op (Suc (Suc (Suc (nextId rw))) +
                               length (filter (\<lambda>k. \<not> fromNested j (ts ! k)) [0..<n]))
                             scf_yield (map (combinedYield j nts) ts) 0 []])],
                      (if es = [] then []
                       else [Block (Suc (Suc (Suc (Suc (nextId rw)))) +
                                    length (filter (\<lambda>k. \<not> fromNested j (ts ! k)) [0..<n])) 0
                               [Op (Suc (Suc (Suc (Suc (Suc (nextId rw))))) +
                                    length (filter (\<lambda>k. \<not> fromNested j (ts ! k)) [0..<n]))
                                  scf_yield es 0 []]])] #
                   post)),
            nextId := (if es = []
                       then Suc (Suc (Suc (Suc (nextId rw)))) +
                            length (filter (\<lambda>k. \<not> fromNested j (ts ! k)) [0..<n])
                       else Suc (Suc (Suc (Suc (Suc (Suc (nextId rw)))))) +
                            length (filter (\<lambda>k. \<not> fromNested j (ts ! k)) [0..<n])),
            ip := InsertAtEnd (if es = [] then Suc (Suc (nextId rw))
                               else Suc (Suc (Suc (Suc (nextId rw)))) +
                                    length (filter (\<lambda>k. \<not> fromNested j (ts ! k)) [0..<n]))\<rparr>))"
proof -
  define ups where "ups = filter (\<lambda>k. \<not> fromNested j (ts ! k)) [0..<n]"
  define ts' where "ts' = map (combinedYield j nts) ts"
  define Yn where "Yn = Op nty scf_yield nts 0 []"
  define Yt where "Yt = Op ty scf_yield ts 0 []"
  define NT where "NT = Block ntb 0 (nbody @ [Yn])"
  define J where "J = Op j scf_if [ncnd] m [[NT], nelseR]"
  define T where "T = Block tb ta [J, Yt]"
  define X where "X = Op i scf_if [cnd] n [[T], elseR]"
  note shape = X_def T_def J_def NT_def Yt_def Yn_def
  have root': "ir rw = Block b a (pre @ X # post)"
    unfolding shape by (rule root)
  have "i \<notin> op_ids pre"
    using ops unfolding root by (auto simp: op_ids_list)
  then have look: "lookupOp (ir rw) i = Some X"
    unfolding root' using lookupOp_at[of X pre b a post] by (simp add: X_def)
  have wt: "without_terminator T = [J]"
    by (simp add: without_terminator_def T_def Yt_def isTerminator_def)
  have ey: "(elseR \<noteq> [] \<and> length (block_ops (last elseR)) \<noteq> Suc 0) = False"
           "(if elseR = [] then Ok [] else bindA (getYield elseR) (\<lambda>y. Ok (getOperands y))) = Ok es"
    using outer by (auto simp: getYield_def getTerminator_def isTerminator_def bindA_def)
  have ney: "(nelseR \<noteq> [] \<and> length (block_ops (last nelseR)) \<noteq> Suc 0) = False"
    using inner by auto
  have ty: "getYield [T] = Ok Yt" "getOperands Yt = ts"
    by (simp_all add: getYield_def getTerminator_def isTerminator_def bindA_def T_def Yt_def)
  have loop: "combineYields J [T] es 0 (n - 0) (map (combinedYield j nts) (take 0 ts) @ drop 0 ts)
                (filter (\<lambda>k. \<not> fromNested j (ts ! k)) [0..<0]) =
              (if \<exists>k. 0 \<le> k \<and> k < n \<and> refusesAt j nes ts es k then Ok None
               else Ok (Some (map (combinedYield j nts) ts, filter (\<lambda>k. \<not> fromNested j (ts ! k)) [0..<n])))"
  proof (rule combineYields_reading[where nthenR="[NT]" and nelseR=nelseR and Ynt=Yn
            and Yne="Op ney scf_yield nes 0 []"])
    show "getRegions J ! 0 = [NT]" "getRegions J ! 1 = nelseR" "op_id J = j"
      by (simp_all add: J_def)
    show "getYield [NT] = Ok Yn" "getOperands Yn = nts"
      by (simp_all add: getYield_def getTerminator_def isTerminator_def bindA_def NT_def Yn_def)
    show "length ts = n" "length es = n" "0 \<le> n"
      using lens by simp_all
    show "getYield nelseR = Ok (Op ney scf_yield nes 0 []) \<and> getOperands (Op ney scf_yield nes 0 []) = nes \<and>
          q < length nes \<and> q < length nts" if "OpResult j q \<in> set ts" for q
    proof -
      have q: "q < m" using that wf by simp
      then have "nes \<noteq> []" using lens by auto
      then have "nelseR = [Block neb nea [Op ney scf_yield nes 0 []]]"
        using inner by auto
      then show ?thesis
        using q lens by (simp add: getYield_def getTerminator_def isTerminator_def bindA_def)
    qed
    show "\<not> definedInRegion [T] (ts ! k)" if k: "k < n" and nn: "\<not> fromNested j (ts ! k)" for k
    proof -
      have "ts ! k \<in> set ts" using k lens by simp
      then have "\<forall>q. ts ! k \<noteq> OpResult ty q" "\<forall>q. ts ! k \<noteq> BlockArgument tb q"
        using ssa by metis+
      then show ?thesis
        using nn by (cases "ts ! k") (simp_all add: definedInRegion_def fromNested_def T_def J_def Yt_def)
    qed
  qed
  then have loop': "combineYields J [T] es 0 n ts [] =
                    (if \<exists>k<n. refusesAt j nes ts es k then Ok None else Ok (Some (ts', ups)))"
    by (simp add: ts'_def ups_def)
  have match: "CombineNestedIfs rw i =
               matchResult (if \<exists>k<n. refusesAt j nes ts es k then Ok None
                            else bindA (combineRewrite i cnd ncnd n ntb ts' es ups rw) (\<lambda>rw'. Ok (Some rw')))"
    using wt ty loop' lens(1) unfolding shape
    by (auto simp add: CombineNestedIfs_def look[unfolded shape] ey ney bindA_Ok)
  have ups: "\<forall>idx \<in> set ups. idx < n \<and> idx < length ts' \<and> idx < length es"
    using lens by (simp add: ups_def ts'_def)
  have same: "\<forall>k \<in> set ups. ts' ! k = ts ! k"
    using lens by (auto simp: ups_def ts'_def combinedYield_def fromNested_def split: val.splits)
  note rewrite = combineRewrite_at[OF root ipt ops blocks bound bbound ups]
  show ?thesis
  proof (cases "\<exists>k<n. refusesAt j nes ts es k")
    case True
    then show ?thesis
      unfolding match by (simp add: matchResult_def)
  next
    case False
    then show ?thesis
      unfolding match rewrite selectOps_cong[OF same] ups_def[symmetric] ts'_def[symmetric]
      by (simp add: matchResult_def bindA_Ok)
  qed
qed

text \<open>The two example programs meet the conditions.\<close>

lemma nested_if_root:
  "ir nested_if_example =
     Block 0 5 ([] @ Op 1 scf_if [(BlockArgument 0 0)] 2
                    [[Block 1 0 [Op 2 scf_if [(BlockArgument 0 1)] 1 [[Block 2 0 ([Op 3 (other_op ''work'') [] 1 []] @ [Op 4 scf_yield [OpResult 3 0] 0 []])], [Block 3 0 [Op 5 scf_yield [BlockArgument 0 2] 0 []]]],
                                   Op 6 scf_yield [OpResult 2 0, BlockArgument 0 3] 0 []]],
                     [Block 4 0 [Op 7 scf_yield [BlockArgument 0 2, BlockArgument 0 4] 0 []]]] # [Op 8 (other_op ''use'') [OpResult 1 0, OpResult 1 1] 0 []])"
  by (simp add: nested_if_example_def)

lemma nested_if_wf:
  "ip nested_if_example = InsertBefore 1"
  "distinct (map op_id (ops_of_block (ir nested_if_example)))"
  "distinct (map block_id (blocks_of_block (ir nested_if_example)))"
  "\<forall>t \<in> op_id ` set (ops_of_block (ir nested_if_example)). t < nextId nested_if_example"
  "\<forall>t \<in> block_id ` set (blocks_of_block (ir nested_if_example)). t < nextId nested_if_example"
  by (simp_all add: nested_if_example_def)

lemma nested_if_values:
  "[Block 4 0 [Op 7 scf_yield [BlockArgument 0 2, BlockArgument 0 4] 0 []]] = [] \<and> [BlockArgument 0 2, BlockArgument 0 4] = [] \<or> [Block 4 0 [Op 7 scf_yield [BlockArgument 0 2, BlockArgument 0 4] 0 []]] = [Block 4 0 [Op 7 scf_yield [BlockArgument 0 2, BlockArgument 0 4] 0 []]]"
  "[Block 3 0 [Op 5 scf_yield [BlockArgument 0 2] 0 []]] = [] \<and> [BlockArgument 0 2] = [] \<or> [Block 3 0 [Op 5 scf_yield [BlockArgument 0 2] 0 []]] = [Block 3 0 [Op 5 scf_yield [BlockArgument 0 2] 0 []]]"
  "length [OpResult 2 0, BlockArgument 0 3] = 2"
  "length [BlockArgument 0 2, BlockArgument 0 4] = 2"
  "length [OpResult 3 0] = 1"
  "length [BlockArgument 0 2] = 1"
  "\<forall>q. OpResult 2 q \<in> set [OpResult 2 0, BlockArgument 0 3] \<longrightarrow> q < 1"
  "\<forall>q. OpResult 6 q \<notin> set [OpResult 2 0, BlockArgument 0 3]"
  "\<forall>q. BlockArgument 1 q \<notin> set [OpResult 2 0, BlockArgument 0 3]"
  by simp_all

lemma nested_if_reading:
  assumes "R =
     (if \<exists>k<2. refusesAt 2 [BlockArgument 0 2] [OpResult 2 0, BlockArgument 0 3] [BlockArgument 0 2, BlockArgument 0 4] k then failure
      else success
        (nested_if_example\<lparr>ir := Block 0 5
               (map (substOp (substitute (map (OpResult 1) [0..<2])
                                (selectResults (Suc (Suc (Suc (nextId nested_if_example))))
                                   (filter (\<lambda>k. \<not> fromNested 2 ([OpResult 2 0, BlockArgument 0 3] ! k)) [0..<2])
                                   (map (OpResult (Suc (nextId nested_if_example))) [0..<2]))))
                  ([] @ Op (nextId nested_if_example) arith_andi [(BlockArgument 0 0), (BlockArgument 0 1)] 1 [] #
                   selectOps (BlockArgument 0 0) [OpResult 2 0, BlockArgument 0 3] [BlockArgument 0 2, BlockArgument 0 4] (Suc (Suc (Suc (nextId nested_if_example))))
                     (filter (\<lambda>k. \<not> fromNested 2 ([OpResult 2 0, BlockArgument 0 3] ! k)) [0..<2]) @
                   Op (Suc (nextId nested_if_example)) scf_if [OpResult (nextId nested_if_example) 0] 2
                     [[Block (Suc (Suc (nextId nested_if_example))) 0
                         ([Op 3 (other_op ''work'') [] 1 []] @
                          [Op (Suc (Suc (Suc (nextId nested_if_example))) +
                               length (filter (\<lambda>k. \<not> fromNested 2 ([OpResult 2 0, BlockArgument 0 3] ! k)) [0..<2]))
                             scf_yield (map (combinedYield 2 [OpResult 3 0]) [OpResult 2 0, BlockArgument 0 3]) 0 []])],
                      (if [BlockArgument 0 2, BlockArgument 0 4] = [] then []
                       else [Block (Suc (Suc (Suc (Suc (nextId nested_if_example)))) +
                                    length (filter (\<lambda>k. \<not> fromNested 2 ([OpResult 2 0, BlockArgument 0 3] ! k)) [0..<2])) 0
                               [Op (Suc (Suc (Suc (Suc (Suc (nextId nested_if_example))))) +
                                    length (filter (\<lambda>k. \<not> fromNested 2 ([OpResult 2 0, BlockArgument 0 3] ! k)) [0..<2]))
                                  scf_yield [BlockArgument 0 2, BlockArgument 0 4] 0 []]])] #
                   [Op 8 (other_op ''use'') [OpResult 1 0, OpResult 1 1] 0 []])),
            nextId := (if [BlockArgument 0 2, BlockArgument 0 4] = []
                       then Suc (Suc (Suc (Suc (nextId nested_if_example)))) +
                            length (filter (\<lambda>k. \<not> fromNested 2 ([OpResult 2 0, BlockArgument 0 3] ! k)) [0..<2])
                       else Suc (Suc (Suc (Suc (Suc (Suc (nextId nested_if_example)))))) +
                            length (filter (\<lambda>k. \<not> fromNested 2 ([OpResult 2 0, BlockArgument 0 3] ! k)) [0..<2])),
            ip := InsertAtEnd (if [BlockArgument 0 2, BlockArgument 0 4] = [] then Suc (Suc (nextId nested_if_example))
                               else Suc (Suc (Suc (Suc (nextId nested_if_example)))) +
                                    length (filter (\<lambda>k. \<not> fromNested 2 ([OpResult 2 0, BlockArgument 0 3] ! k)) [0..<2]))\<rparr>))"
  shows "R = success nested_if_combined"
proof -
  have two: "(2::nat) = Suc (Suc 0)" by simp
  have ups: "filter (\<lambda>k. \<not> fromNested 2 ([OpResult 2 0, BlockArgument 0 3] ! k)) [0..<2] = [Suc 0]"
    unfolding two by (simp add: fromNested_def)
  have no: "\<not> refusesAt 2 [BlockArgument 0 2] [OpResult 2 0, BlockArgument 0 3]
              [BlockArgument 0 2, BlockArgument 0 4] k" if "k < 2" for k
  proof -
    have "k = 0 \<or> k = Suc 0" using that by auto
    then show ?thesis by (auto simp: refusesAt_def)
  qed
  then have ex: "\<not> (\<exists>k<2. refusesAt 2 [BlockArgument 0 2] [OpResult 2 0, BlockArgument 0 3]
              [BlockArgument 0 2, BlockArgument 0 4] k)"
    by blast
  have s: "substitute (map (OpResult 1) [0..<2]) [OpResult 10 0, OpResult 12 0] =
           (\<lambda>v. if v = OpResult 1 0 then OpResult 10 0
                else if v = OpResult 1 1 then OpResult 12 0 else v)"
    unfolding two by (rule ext) (simp add: substitute_def)
  have res: "selectResults 12 [Suc 0] (map (OpResult 10) [0..<2]) = [OpResult 10 0, OpResult 12 0]"
    unfolding two by simp
  have "R = success (nested_if_example
          \<lparr>ir := Block 0 5
             (map (substOp (substitute (map (OpResult 1) [0..<2]) [OpResult 10 0, OpResult 12 0]))
                [Op 9 arith_andi [BlockArgument 0 0, BlockArgument 0 1] 1 [],
                 Op 12 arith_select [BlockArgument 0 0, BlockArgument 0 3, BlockArgument 0 4] 1 [],
                 Op 10 scf_if [OpResult 9 0] 2
                   [[Block 11 0 [Op 3 (other_op ''work'') [] 1 [],
                                 Op 13 scf_yield [OpResult 3 0, BlockArgument 0 3] 0 []]],
                    [Block 14 0 [Op 15 scf_yield [BlockArgument 0 2, BlockArgument 0 4] 0 []]]],
                 Op 8 (other_op ''use'') [OpResult 1 0, OpResult 1 1] 0 []]),
            nextId := 16, ip := InsertAtEnd 14\<rparr>)"
    using assms ex ups res
    by (simp add: nested_if_example_def combinedYield_def)
  then show ?thesis
    unfolding s by (simp add: nested_if_example_def nested_if_combined_def)
qed


lemma nested_if_mismatch_root:
  "ir nested_if_mismatch_example =
     Block 0 5 ([] @ Op 1 scf_if [(BlockArgument 0 0)] 2
                    [[Block 1 0 [Op 2 scf_if [(BlockArgument 0 1)] 1 [[Block 2 0 ([Op 3 (other_op ''work'') [] 1 []] @ [Op 4 scf_yield [OpResult 3 0] 0 []])], [Block 3 0 [Op 5 scf_yield [BlockArgument 0 4] 0 []]]],
                                   Op 6 scf_yield [OpResult 2 0, BlockArgument 0 3] 0 []]],
                     [Block 4 0 [Op 7 scf_yield [BlockArgument 0 2, BlockArgument 0 4] 0 []]]] # [Op 8 (other_op ''use'') [OpResult 1 0, OpResult 1 1] 0 []])"
  by (simp add: nested_if_mismatch_example_def)

lemma nested_if_mismatch_wf:
  "ip nested_if_mismatch_example = InsertBefore 1"
  "distinct (map op_id (ops_of_block (ir nested_if_mismatch_example)))"
  "distinct (map block_id (blocks_of_block (ir nested_if_mismatch_example)))"
  "\<forall>t \<in> op_id ` set (ops_of_block (ir nested_if_mismatch_example)). t < nextId nested_if_mismatch_example"
  "\<forall>t \<in> block_id ` set (blocks_of_block (ir nested_if_mismatch_example)). t < nextId nested_if_mismatch_example"
  by (simp_all add: nested_if_mismatch_example_def)

lemma nested_if_mismatch_values:
  "[Block 4 0 [Op 7 scf_yield [BlockArgument 0 2, BlockArgument 0 4] 0 []]] = [] \<and> [BlockArgument 0 2, BlockArgument 0 4] = [] \<or> [Block 4 0 [Op 7 scf_yield [BlockArgument 0 2, BlockArgument 0 4] 0 []]] = [Block 4 0 [Op 7 scf_yield [BlockArgument 0 2, BlockArgument 0 4] 0 []]]"
  "[Block 3 0 [Op 5 scf_yield [BlockArgument 0 4] 0 []]] = [] \<and> [BlockArgument 0 4] = [] \<or> [Block 3 0 [Op 5 scf_yield [BlockArgument 0 4] 0 []]] = [Block 3 0 [Op 5 scf_yield [BlockArgument 0 4] 0 []]]"
  "length [OpResult 2 0, BlockArgument 0 3] = 2"
  "length [BlockArgument 0 2, BlockArgument 0 4] = 2"
  "length [OpResult 3 0] = 1"
  "length [BlockArgument 0 4] = 1"
  "\<forall>q. OpResult 2 q \<in> set [OpResult 2 0, BlockArgument 0 3] \<longrightarrow> q < 1"
  "\<forall>q. OpResult 6 q \<notin> set [OpResult 2 0, BlockArgument 0 3]"
  "\<forall>q. BlockArgument 1 q \<notin> set [OpResult 2 0, BlockArgument 0 3]"
  by simp_all

lemma nested_if_mismatch_reading:
  assumes "R =
     (if \<exists>k<2. refusesAt 2 [BlockArgument 0 4] [OpResult 2 0, BlockArgument 0 3] [BlockArgument 0 2, BlockArgument 0 4] k then failure
      else success
        (nested_if_mismatch_example\<lparr>ir := Block 0 5
               (map (substOp (substitute (map (OpResult 1) [0..<2])
                                (selectResults (Suc (Suc (Suc (nextId nested_if_mismatch_example))))
                                   (filter (\<lambda>k. \<not> fromNested 2 ([OpResult 2 0, BlockArgument 0 3] ! k)) [0..<2])
                                   (map (OpResult (Suc (nextId nested_if_mismatch_example))) [0..<2]))))
                  ([] @ Op (nextId nested_if_mismatch_example) arith_andi [(BlockArgument 0 0), (BlockArgument 0 1)] 1 [] #
                   selectOps (BlockArgument 0 0) [OpResult 2 0, BlockArgument 0 3] [BlockArgument 0 2, BlockArgument 0 4] (Suc (Suc (Suc (nextId nested_if_mismatch_example))))
                     (filter (\<lambda>k. \<not> fromNested 2 ([OpResult 2 0, BlockArgument 0 3] ! k)) [0..<2]) @
                   Op (Suc (nextId nested_if_mismatch_example)) scf_if [OpResult (nextId nested_if_mismatch_example) 0] 2
                     [[Block (Suc (Suc (nextId nested_if_mismatch_example))) 0
                         ([Op 3 (other_op ''work'') [] 1 []] @
                          [Op (Suc (Suc (Suc (nextId nested_if_mismatch_example))) +
                               length (filter (\<lambda>k. \<not> fromNested 2 ([OpResult 2 0, BlockArgument 0 3] ! k)) [0..<2]))
                             scf_yield (map (combinedYield 2 [OpResult 3 0]) [OpResult 2 0, BlockArgument 0 3]) 0 []])],
                      (if [BlockArgument 0 2, BlockArgument 0 4] = [] then []
                       else [Block (Suc (Suc (Suc (Suc (nextId nested_if_mismatch_example)))) +
                                    length (filter (\<lambda>k. \<not> fromNested 2 ([OpResult 2 0, BlockArgument 0 3] ! k)) [0..<2])) 0
                               [Op (Suc (Suc (Suc (Suc (Suc (nextId nested_if_mismatch_example))))) +
                                    length (filter (\<lambda>k. \<not> fromNested 2 ([OpResult 2 0, BlockArgument 0 3] ! k)) [0..<2]))
                                  scf_yield [BlockArgument 0 2, BlockArgument 0 4] 0 []]])] #
                   [Op 8 (other_op ''use'') [OpResult 1 0, OpResult 1 1] 0 []])),
            nextId := (if [BlockArgument 0 2, BlockArgument 0 4] = []
                       then Suc (Suc (Suc (Suc (nextId nested_if_mismatch_example)))) +
                            length (filter (\<lambda>k. \<not> fromNested 2 ([OpResult 2 0, BlockArgument 0 3] ! k)) [0..<2])
                       else Suc (Suc (Suc (Suc (Suc (Suc (nextId nested_if_mismatch_example)))))) +
                            length (filter (\<lambda>k. \<not> fromNested 2 ([OpResult 2 0, BlockArgument 0 3] ! k)) [0..<2])),
            ip := InsertAtEnd (if [BlockArgument 0 2, BlockArgument 0 4] = [] then Suc (Suc (nextId nested_if_mismatch_example))
                               else Suc (Suc (Suc (Suc (nextId nested_if_mismatch_example)))) +
                                    length (filter (\<lambda>k. \<not> fromNested 2 ([OpResult 2 0, BlockArgument 0 3] ! k)) [0..<2]))\<rparr>))"
  shows "R = failure"
proof -
  have "refusesAt 2 [BlockArgument 0 4] [OpResult 2 0, BlockArgument 0 3]
          [BlockArgument 0 2, BlockArgument 0 4] 0"
    by (simp add: refusesAt_def)
  then have "\<exists>k<2. refusesAt 2 [BlockArgument 0 4] [OpResult 2 0, BlockArgument 0 3]
          [BlockArgument 0 2, BlockArgument 0 4] k"
    by (intro exI[of _ 0]) simp
  then show ?thesis unfolding assms by (rule if_P)
qed


text \<open>
  C7: take an scf.if whose then block holds, in front of its terminator, one operation,
  another scf.if, and whose else blocks, the outer and the inner one when present, hold
  their terminator only. The program is well formed: identifiers are distinct, the two
  blocks of an scf.if yield as many values as it has results, and the then block yields
  no result of its own terminator and no argument of its own. Then
  \<open>CombineNestedIfs\<close> fails when at some position the then block yields a result of the
  inner scf.if whose value in the inner else block is not the value that the outer else
  block yields at that position. Otherwise it succeeds: an arith.andi of the two
  conditions and an scf.if guarded by it are created in front of the outer scf.if; the
  new then block holds the operations of the inner then block and yields, at each position,
  the value of the inner then block where the outer one yielded a result of the inner
  scf.if, and the value of the outer then block elsewhere; the new else block yields the
  values of the outer else block; for every position where the outer then block yields a
  value that is not a result of the inner scf.if, an arith.select of the outer condition
  between that value and the value of the outer else block is created in front of the new
  scf.if, and replaces the result of the outer scf.if at that position; the other results
  are replaced by the results of the new scf.if; the outer scf.if is erased with the
  inner one.
\<close>

theorem CombineNestedIfs_collapses:
  assumes root: "ir rw = Block b a (pre @ Op i scf_if [cnd] n
                    [[Block tb ta [Op j scf_if [ncnd] m [[Block ntb 0 (nbody @ [Op nty scf_yield nts 0 []])], nelseR],
                                   Op ty scf_yield ts 0 []]],
                     elseR] # post)"
      and ipt: "ip rw = InsertBefore i"
      and ops: "distinct (map op_id (ops_of_block (ir rw)))"
      and blocks: "distinct (map block_id (blocks_of_block (ir rw)))"
      and bound: "\<forall>t \<in> op_id ` set (ops_of_block (ir rw)). t < nextId rw"
      and bbound: "\<forall>t \<in> block_id ` set (blocks_of_block (ir rw)). t < nextId rw"
      and outer: "elseR = [] \<and> es = [] \<or> elseR = [Block eb ea [Op ey scf_yield es 0 []]]"
      and inner: "nelseR = [] \<and> nes = [] \<or> nelseR = [Block neb nea [Op ney scf_yield nes 0 []]]"
      and lens: "length ts = n" "length es = n" "length nts = m" "length nes = m"
      and wf: "\<forall>q. OpResult j q \<in> set ts \<longrightarrow> q < m"
      and ssa: "\<forall>q. OpResult ty q \<notin> set ts" "\<forall>q. BlockArgument tb q \<notin> set ts"
  shows "CombineNestedIfs rw i =
     (if \<exists>k<n. refusesAt j nes ts es k then failure
      else success
        (rw\<lparr>ir := Block b a
               (map (substOp (substitute (map (OpResult i) [0..<n])
                                (selectResults (Suc (Suc (Suc (nextId rw))))
                                   (filter (\<lambda>k. \<not> fromNested j (ts ! k)) [0..<n])
                                   (map (OpResult (Suc (nextId rw))) [0..<n]))))
                  (pre @ Op (nextId rw) arith_andi [cnd, ncnd] 1 [] #
                   selectOps cnd ts es (Suc (Suc (Suc (nextId rw))))
                     (filter (\<lambda>k. \<not> fromNested j (ts ! k)) [0..<n]) @
                   Op (Suc (nextId rw)) scf_if [OpResult (nextId rw) 0] n
                     [[Block (Suc (Suc (nextId rw))) 0
                         (nbody @
                          [Op (Suc (Suc (Suc (nextId rw))) +
                               length (filter (\<lambda>k. \<not> fromNested j (ts ! k)) [0..<n]))
                             scf_yield (map (combinedYield j nts) ts) 0 []])],
                      (if es = [] then []
                       else [Block (Suc (Suc (Suc (Suc (nextId rw)))) +
                                    length (filter (\<lambda>k. \<not> fromNested j (ts ! k)) [0..<n])) 0
                               [Op (Suc (Suc (Suc (Suc (Suc (nextId rw))))) +
                                    length (filter (\<lambda>k. \<not> fromNested j (ts ! k)) [0..<n]))
                                  scf_yield es 0 []]])] #
                   post)),
            nextId := (if es = []
                       then Suc (Suc (Suc (Suc (nextId rw)))) +
                            length (filter (\<lambda>k. \<not> fromNested j (ts ! k)) [0..<n])
                       else Suc (Suc (Suc (Suc (Suc (Suc (nextId rw)))))) +
                            length (filter (\<lambda>k. \<not> fromNested j (ts ! k)) [0..<n])),
            ip := InsertAtEnd (if es = [] then Suc (Suc (nextId rw))
                               else Suc (Suc (Suc (Suc (nextId rw)))) +
                                    length (filter (\<lambda>k. \<not> fromNested j (ts ! k)) [0..<n]))\<rparr>))"
  using assms by (rule combineNestedIfs_result)

text \<open>The pattern combines \<open>nested_if_example\<close> and refuses \<open>nested_if_mismatch_example\<close>.\<close>

theorem CombineNestedIfs_collapses_witness:
  "CombineNestedIfs nested_if_example 1 = success nested_if_combined
   \<and> CombineNestedIfs nested_if_mismatch_example 1 = failure"
proof -
  have a: "CombineNestedIfs nested_if_example 1 = success nested_if_combined"
    using CombineNestedIfs_collapses[OF nested_if_root nested_if_wf nested_if_values]
    by (rule nested_if_reading)
  have b: "CombineNestedIfs nested_if_mismatch_example 1 = failure"
    using CombineNestedIfs_collapses[OF nested_if_mismatch_root nested_if_mismatch_wf nested_if_mismatch_values]
    by (rule nested_if_mismatch_reading)
  show ?thesis
    using a b by simp
qed

end
